theory Spec2Isabelle
  imports Main "HOL-Library.Word"
begin

section \<open>Link registry and handshake of \<^verbatim>\<open>src/core/link.go\<close>\<close>

text \<open>
  The development follows \<^verbatim>\<open>link.go\<close>: the data types of the file, the helpers of the
  Go standard library it calls, \<^verbatim>\<open>links.call\<close>, \<^verbatim>\<open>links.create\<close>, \<^verbatim>\<open>links.stop\<close> and
  \<^verbatim>\<open>link.handler\<close>. Pointers are addresses into explicit stores (link objects,
  channels, connections); a panic is a value of the result type.
\<close>

subsection \<open>Values\<close>

type_synonym byte = "8 word"

text \<open>\<^verbatim>\<open>type keyArray [ed25519.PublicKeySize]byte\<close>: a byte list of length 32.\<close>

type_synonym keyArray = "byte list"

definition PublicKeySize :: nat where
  "PublicKeySize = 32"

text \<open>The zero value of \<^verbatim>\<open>keyArray\<close> (\<^verbatim>\<open>var key keyArray\<close>).\<close>

definition zeroKey :: keyArray where
  "zeroKey = replicate PublicKeySize 0"

text \<open>
  Go's builtin \<^verbatim>\<open>copy(dst, src)\<close>: the first \<open>min (len dst) (len src)\<close> elements of
  \<open>dst\<close> are overwritten, the length of \<open>dst\<close> stays.
\<close>

definition copy :: "'a list \<Rightarrow> 'a list \<Rightarrow> 'a list" where
  "copy dst src = take (length dst) src @ drop (length src) dst"

text \<open>
  Errors. \<open>ErrorNew msg\<close> is an error made in this file by \<^verbatim>\<open>errors.New\<close> or
  \<^verbatim>\<open>fmt.Errorf\<close>; \<open>Foreign msg\<close> is an error handed back by a collaborator (the
  connection, the tunnel engine, the TCP adapter).
\<close>

datatype error = ErrorNew string | Foreign string

subsection \<open>Standard-library helpers used by the file\<close>

text \<open>\<^verbatim>\<open>encoding/hex\<close>: \<^verbatim>\<open>DecodeString\<close> fails on an odd length and on any character
  that is not a hexadecimal digit (both cases accepted); the caller only tests
  \<^verbatim>\<open>err == nil\<close>, so a failure is \<open>None\<close>.\<close>

definition fromHexChar :: "char \<Rightarrow> nat option" where
  "fromHexChar c =
     (let n = (of_char c :: nat) in
      if 48 \<le> n \<and> n \<le> 57 then Some (n - 48)
      else if 97 \<le> n \<and> n \<le> 102 then Some (n - 97 + 10)
      else if 65 \<le> n \<and> n \<le> 70 then Some (n - 65 + 10)
      else None)"

fun DecodeString :: "string \<Rightarrow> byte list option" where
  "DecodeString [] = Some []"
| "DecodeString [p] = None"
| "DecodeString (p # q # cs) =
     (case fromHexChar p of
        None \<Rightarrow> None
      | Some a \<Rightarrow>
          (case fromHexChar q of
             None \<Rightarrow> None
           | Some b \<Rightarrow>
               (case DecodeString cs of
                  None \<Rightarrow> None
                | Some bs \<Rightarrow> Some (of_nat (a * 16 + b) # bs))))"

definition hextable :: string where
  "hextable = ''0123456789abcdef''"

text \<open>\<^verbatim>\<open>hex.EncodeToString\<close>: two lower-case digits per byte.\<close>

fun EncodeToString :: "byte list \<Rightarrow> string" where
  "EncodeToString [] = []"
| "EncodeToString (b # bs) =
     hextable ! (unat b div 16) # hextable ! (unat b mod 16) # EncodeToString bs"

text \<open>
  \<^verbatim>\<open>strconv.ParseUint(s, 10, 8)\<close>, value only (the caller drops the error): 0 on a
  syntax error (empty input, a character that is no decimal digit), 255 as soon as the
  digits read so far exceed 255.
\<close>

fun ParseUint_digits :: "nat \<Rightarrow> string \<Rightarrow> nat" where
  "ParseUint_digits n [] = n"
| "ParseUint_digits n (c # cs) =
     (let d = (of_char c :: nat) in
      if d < 48 \<or> 57 < d then 0
      else if 255 < n * 10 + (d - 48) then 255
      else ParseUint_digits (n * 10 + (d - 48)) cs)"

definition ParseUint :: "string \<Rightarrow> nat" where
  "ParseUint s = (if s = [] then 0 else ParseUint_digits 0 s)"

text \<open>\<^verbatim>\<open>strings.Trim(s, "/")\<close> and the first token of \<^verbatim>\<open>strings.Split(s, "/")\<close>
  (\<^verbatim>\<open>Split\<close> never returns an empty slice, so \<^verbatim>\<open>pathtokens[0]\<close> exists).\<close>

definition Trim_slash :: "string \<Rightarrow> string" where
  "Trim_slash s =
     rev (dropWhile (\<lambda>c. c = CHR ''/'') (rev (dropWhile (\<lambda>c. c = CHR ''/'') s)))"

definition Split_first :: "string \<Rightarrow> string" where
  "Split_first s = takeWhile (\<lambda>c. c \<noteq> CHR ''/'') s"

subsection \<open>Data model\<close>

text \<open>\<^verbatim>\<open>linkInfo\<close>, the key of the registry map.\<close>

record linkInfo =
  key :: keyArray
  linkType :: string
  local :: string
  remote :: string

text \<open>\<^verbatim>\<open>linkOptions\<close>: \<^verbatim>\<open>map[keyArray]struct{}\<close> is a set, \<open>None\<close> is the nil map.\<close>

record linkOptions =
  pinnedEd25519Keys :: "keyArray set option"
  metric :: "8 word"

text \<open>
  \<^verbatim>\<open>tcpOptions\<close> is declared outside this file; \<^verbatim>\<open>links.call\<close> uses the embedded
  \<^verbatim>\<open>linkOptions\<close> and the fields below. \<open>upgrade\<close> records whether
  \<^verbatim>\<open>l.tcp.tls.forDialer\<close> was stored; \<open>socksProxyAuth\<close> is \<^verbatim>\<open>(User, Password)\<close>.
\<close>

record tcpOptions = linkOptions +
  upgrade :: bool
  socksProxyAddr :: string
  socksProxyAuth :: "(string \<times> string) option"

definition tcpOptions_zero :: tcpOptions where
  "tcpOptions_zero =
     \<lparr>pinnedEd25519Keys = None, metric = 0, upgrade = False,
      socksProxyAddr = [], socksProxyAuth = None\<rparr>"

text \<open>
  \<^verbatim>\<open>link\<close>. \<open>conn\<close> is the handle of the raw connection, \<open>closed\<close> the address of
  the closure channel (\<open>None\<close> is the nil channel). The back pointer \<^verbatim>\<open>links\<close> is
  left out: there is one registry, the state below.
\<close>

record link =
  lname :: string
  conn :: nat
  options :: linkOptions
  info :: linkInfo
  incoming :: bool
  force :: bool
  closed :: "nat option"

text \<open>
  The registry \<^verbatim>\<open>links\<close> together with the stores its pointers refer to.
  \<^item> \<open>links\<close>: \<^verbatim>\<open>map[linkInfo]*link\<close>, values are addresses of link objects;
  \<^item> \<open>tcp\<close>: the TCP adapter, opaque;
  \<^item> \<open>stopped\<close>: the address of the stop channel;
  \<^item> \<open>heap\<close>, \<open>next_link\<close>: the link objects and the next free address;
  \<^item> \<open>chans\<close>, \<open>next_chan\<close>: the channels (\<open>True\<close> once closed) and the next free
    address;
  \<^item> \<open>conns\<close>: per connection, how often \<^verbatim>\<open>Close()\<close> was called on it;
  \<^item> \<open>running\<close>: the links whose \<^verbatim>\<open>handler\<close> is blocked in \<^verbatim>\<open>HandleConn\<close> (the
    control state of the handler goroutines).
  The mutex is not modelled: every access to \<open>links\<close> below is one atomic step, which
  is what the lock gives.
\<close>

record 'tcp state =
  links :: "linkInfo \<rightharpoonup> nat"
  tcp :: 'tcp
  stopped :: "nat option"
  heap :: "nat \<rightharpoonup> link"
  next_link :: nat
  chans :: "nat \<rightharpoonup> bool"
  next_chan :: nat
  conns :: "nat \<Rightarrow> nat"
  running :: "nat set"

text \<open>\<^verbatim>\<open>make(chan struct{})\<close>: a fresh open channel.\<close>

definition make_chan :: "'tcp state \<Rightarrow> nat \<times> 'tcp state" where
  "make_chan s =
     (next_chan s, s\<lparr>chans := (chans s)(next_chan s \<mapsto> False), next_chan := Suc (next_chan s)\<rparr>)"

text \<open>\<^verbatim>\<open>close(ch)\<close>: panics (\<open>None\<close>) on the nil channel and on a closed channel; an
  address that holds no channel is treated like the nil channel.\<close>

definition close_chan :: "nat option \<Rightarrow> (nat \<rightharpoonup> bool) \<Rightarrow> (nat \<rightharpoonup> bool) option" where
  "close_chan ch cs =
     (case ch of
        None \<Rightarrow> None
      | Some c \<Rightarrow> (case cs c of Some False \<Rightarrow> Some (cs(c \<mapsto> True)) | _ \<Rightarrow> None))"

text \<open>\<^verbatim>\<open>conn.Close()\<close>, counted.\<close>

definition conn_Close :: "nat \<Rightarrow> 'tcp state \<Rightarrow> 'tcp state" where
  "conn_Close c s = s\<lparr>conns := (conns s)(c := Suc (conns s c))\<rparr>"

subsection \<open>Collaborators declared outside this file\<close>

text \<open>
  \<^verbatim>\<open>version_metadata\<close> and its methods are declared in another file of the package;
  \<^verbatim>\<open>handler\<close> reads the four fields below and calls \<^verbatim>\<open>version_getBaseMetadata\<close>,
  \<^verbatim>\<open>encode\<close>, \<^verbatim>\<open>decode\<close> and \<^verbatim>\<open>check\<close>. They are parameters here, collected with
  the two values \<^verbatim>\<open>handler\<close> reads from \<^verbatim>\<open>Core\<close>: the node's public key and
  \<^verbatim>\<open>config.GetCurrent().AllowedPublicKeys\<close>. The key of the metadata is a slice
  (\<^verbatim>\<open>ed25519.PublicKey\<close>), of any length.
\<close>

record version_metadata =
  meta_ver :: "8 word"
  meta_minorVer :: "8 word"
  meta_key :: "byte list"
  meta_metric :: "8 word"

record core =
  public :: "byte list"
  AllowedPublicKeys :: "string list"
  version_getBaseMetadata :: version_metadata
  encode :: "version_metadata \<Rightarrow> byte list"
  decode :: "byte list \<Rightarrow> version_metadata option"
  check :: "version_metadata \<Rightarrow> bool"

text \<open>
  What the raw connection does during one handshake: for \<^verbatim>\<open>conn.Write\<close> and for
  \<^verbatim>\<open>io.ReadFull\<close> the time the call takes in nanoseconds (\<open>None\<close>: it never
  returns), the count and the error it returns, and for the read the contents of
  the buffer afterwards. No relation between them is assumed.
\<close>

record conn_io =
  write_time :: "nat option"
  write_n :: int
  write_err :: "error option"
  read_time :: "nat option"
  read_n :: int
  read_err :: "error option"
  read_buf :: "byte list"

text \<open>\<^verbatim>\<open>time.Second\<close>, in nanoseconds as \<^verbatim>\<open>time.Duration\<close> counts.\<close>

definition Second :: nat where
  "Second = 1000000000"

text \<open>
  Modelled from the spec: \<^verbatim>\<open>util.FuncTimeout\<close> is not among the sources. It runs the
  function under a deadline and reports whether the function returned before the
  deadline expired; the second argument is the time the function takes.
\<close>

definition FuncTimeout :: "nat \<Rightarrow> nat option \<Rightarrow> bool" where
  "FuncTimeout timeout d = (case d of None \<Rightarrow> False | Some t \<Rightarrow> t < timeout)"

subsection \<open>\<^verbatim>\<open>links.init\<close>, \<^verbatim>\<open>links.create\<close>, \<^verbatim>\<open>links.stop\<close>\<close>

text \<open>The result of a call that may panic.\<close>

datatype 'a outcome = Returns 'a | Panic

text \<open>The zero value of the registry before \<^verbatim>\<open>init\<close>, all stores empty.\<close>

definition zero_state :: "'tcp \<Rightarrow> 'tcp state" where
  "zero_state t =
     \<lparr>links = Map.empty, tcp = t, stopped = None, heap = Map.empty, next_link = 0,
      chans = Map.empty, next_chan = 0, conns = (\<lambda>_. 0), running = {}\<rparr>"

text \<open>\<^verbatim>\<open>init\<close>: a fresh map, a fresh stop channel, then \<^verbatim>\<open>tcp.init\<close>, whose error is
  returned.\<close>

definition init :: "('tcp \<Rightarrow> error option \<times> 'tcp) \<Rightarrow> 'tcp state \<Rightarrow> error option \<times> 'tcp state" where
  "init tcp_init s =
     (let s1 = s\<lparr>links := Map.empty\<rparr>;
          (c, s2) = make_chan s1;
          s3 = s2\<lparr>stopped := Some c\<rparr>;
          (err, t) = tcp_init (tcp s3)
      in (err, s3\<lparr>tcp := t\<rparr>))"

text \<open>\<^verbatim>\<open>create\<close>: a new link object; its key is the zero array, its channel nil.\<close>

definition create ::
  "nat \<Rightarrow> string \<Rightarrow> string \<Rightarrow> string \<Rightarrow> string \<Rightarrow> bool \<Rightarrow> bool \<Rightarrow> linkOptions \<Rightarrow> 'tcp state
     \<Rightarrow> (nat \<times> error option) \<times> 'tcp state" where
  "create cn name ltype lcl rmt inc frc opts s =
     (let intf = \<lparr>lname = name, conn = cn, options = opts,
                  info = \<lparr>key = zeroKey, linkType = ltype, local = lcl, remote = rmt\<rparr>,
                  incoming = inc, force = frc, closed = None\<rparr>
      in ((next_link s, None),
          s\<lparr>heap := (heap s)(next_link s \<mapsto> intf), next_link := Suc (next_link s)\<rparr>))"

text \<open>\<^verbatim>\<open>stop\<close>: \<^verbatim>\<open>close(l.stopped)\<close>, then \<^verbatim>\<open>l.tcp.stop()\<close>, whose error is returned.\<close>

definition stop :: "('tcp \<Rightarrow> error option \<times> 'tcp) \<Rightarrow> 'tcp state \<Rightarrow> error option outcome \<times> 'tcp state" where
  "stop tcp_stop s =
     (case close_chan (stopped s) (chans s) of
        None \<Rightarrow> (Panic, s)
      | Some cs \<Rightarrow>
          (let (err, t) = tcp_stop (tcp s)
           in (Returns err, s\<lparr>tcp := t, chans := cs\<rparr>)))"

subsection \<open>\<^verbatim>\<open>links.call\<close>\<close>

text \<open>
  \<^verbatim>\<open>url.URL\<close> as far as \<^verbatim>\<open>call\<close> reads it; \<open>Query\<close> is the parsed query \<^verbatim>\<open>u.Query()\<close>
  (\<^verbatim>\<open>map[string][]string\<close>), \<open>User\<close> is \<^verbatim>\<open>(Username(), Password())\<close>.
\<close>

record URL =
  Scheme :: string
  User :: "(string \<times> string) option"
  Host :: string
  Path :: string
  Query :: "string \<rightharpoonup> string list"

text \<open>Lines 86 to 92: every key that decodes is copied into a zero array and pinned.\<close>

fun pin_keys :: "string list \<Rightarrow> keyArray set \<Rightarrow> keyArray set" where
  "pin_keys [] pinned = pinned"
| "pin_keys (pubkey # pubkeys) pinned =
     (case DecodeString pubkey of
        Some sigPub \<Rightarrow> pin_keys pubkeys (insert (copy zeroKey sigPub) pinned)
      | None \<Rightarrow> pin_keys pubkeys pinned)"

text \<open>Lines 83 to 97: the options read from the query.\<close>

definition call_options :: "URL \<Rightarrow> tcpOptions" where
  "call_options u =
     (let tcpOpts = tcpOptions_zero;
          tcpOpts1 =
            (case Query u ''ed25519'' of
               Some pubkeys \<Rightarrow>
                 if length pubkeys > 0
                 then tcpOpts\<lparr>pinnedEd25519Keys := Some (pin_keys pubkeys {})\<rparr>
                 else tcpOpts
             | None \<Rightarrow> tcpOpts)
      in (case Query u ''metric'' of
            Some [m] \<Rightarrow> tcpOpts1\<lparr>metric := of_nat (ParseUint m)\<rparr>
          | _ \<Rightarrow> tcpOpts1))"

text \<open>
  Lines 98 to 116. \<open>tcp_call\<close> is \<^verbatim>\<open>l.tcp.call\<close>, which returns nothing: whatever the
  adapter does with the request (dialling, failing, succeeding) is its effect on the
  adapter's own state.
\<close>

definition call ::
  "(string \<Rightarrow> tcpOptions \<Rightarrow> string \<Rightarrow> 'tcp \<Rightarrow> 'tcp) \<Rightarrow> URL \<Rightarrow> string \<Rightarrow> 'tcp state
     \<Rightarrow> error option \<times> 'tcp state" where
  "call tcp_call u sintf s =
     (let tcpOpts = call_options u in
      if Scheme u = ''tcp'' then
        (None, s\<lparr>tcp := tcp_call (Host u) tcpOpts sintf (tcp s)\<rparr>)
      else if Scheme u = ''socks'' then
        (let tcpOpts1 = tcpOpts\<lparr>socksProxyAddr := Host u\<rparr>;
             tcpOpts2 = (case User u of
                           None \<Rightarrow> tcpOpts1
                         | Some (usr, pw) \<Rightarrow> tcpOpts1\<lparr>socksProxyAuth := Some (usr, pw)\<rparr>);
             pathtoken = Split_first (Trim_slash (Path u))
         in (None, s\<lparr>tcp := tcp_call pathtoken tcpOpts2 sintf (tcp s)\<rparr>))
      else if Scheme u = ''tls'' then
        (None, s\<lparr>tcp := tcp_call (Host u) (tcpOpts\<lparr>upgrade := True\<rparr>) sintf (tcp s)\<rparr>)
      else (Some (ErrorNew (''unknown call scheme: '' @ Scheme u)), s))"

subsection \<open>\<^verbatim>\<open>link.handler\<close>\<close>

text \<open>Lines 155 to 166: the send under its deadline; \<open>None\<close> when it went through.\<close>

definition send_meta :: "conn_io \<Rightarrow> byte list \<Rightarrow> error option" where
  "send_meta io metaBytes =
     (if \<not> FuncTimeout (30 * Second) (write_time io)
      then Some (ErrorNew ''timeout on metadata send'')
      else if write_err io = None \<and> write_n io \<noteq> int (length metaBytes)
      then Some (ErrorNew ''incomplete metadata send'')
      else write_err io)"

text \<open>Lines 167 to 178: the receive under its own deadline.\<close>

definition recv_meta :: "conn_io \<Rightarrow> byte list \<Rightarrow> error option" where
  "recv_meta io metaBytes =
     (if \<not> FuncTimeout (30 * Second) (read_time io)
      then Some (ErrorNew ''timeout on metadata recv'')
      else if read_err io = None \<and> read_n io \<noteq> int (length metaBytes)
      then Some (ErrorNew ''incomplete metadata recv'')
      else read_err io)"

text \<open>Lines 148 to 152: the local metadata, encoded.\<close>

definition local_metaBytes :: "core \<Rightarrow> link \<Rightarrow> byte list" where
  "local_metaBytes c intf =
     (let meta = (version_getBaseMetadata c)
                   \<lparr>meta_key := public c, meta_metric := metric (options intf)\<rparr>
      in encode c meta)"

text \<open>
  Lines 148 to 194: build and exchange the metadata, decode, take the larger metric,
  check the version. The result is the error returned, or the remote metadata with
  the metric.
\<close>

definition negotiate :: "core \<Rightarrow> conn_io \<Rightarrow> link \<Rightarrow> error + version_metadata \<times> 64 word" where
  "negotiate c io intf =
     (let metric0 = (ucast (metric (options intf)) :: 64 word);
          metaBytes = local_metaBytes c intf
      in case send_meta io metaBytes of
           Some err \<Rightarrow> Inl err
         | None \<Rightarrow>
             (case recv_meta io metaBytes of
                Some err \<Rightarrow> Inl err
              | None \<Rightarrow>
                  (case decode c (read_buf io) of
                     None \<Rightarrow> Inl (ErrorNew ''failed to decode metadata'')
                   | Some rmeta \<Rightarrow>
                       (let metric1 = (if metric0 < ucast (meta_metric rmeta)
                                       then ucast (meta_metric rmeta) else metric0)
                        in if \<not> check c rmeta
                           then Inl (ErrorNew ''remote node is incompatible version'')
                           else Inr (rmeta, metric1)))))"

text \<open>Lines 197 to 204: the pinned keys; \<open>True\<close> when the handshake may go on.\<close>

definition pinned_ok :: "link \<Rightarrow> version_metadata \<Rightarrow> bool" where
  "pinned_ok intf rmeta =
     (case pinnedEd25519Keys (options intf) of
        None \<Rightarrow> True
      | Some pinned \<Rightarrow> copy zeroKey (meta_key rmeta) \<in> pinned)"

text \<open>Lines 207 to 213: the loop over the allow-list, with its \<^verbatim>\<open>break\<close>.\<close>

fun allowed_loop :: "bool \<Rightarrow> string list \<Rightarrow> string \<Rightarrow> bool" where
  "allowed_loop isallowed [] h = isallowed"
| "allowed_loop isallowed (k # ks) h = (if k = h then True else allowed_loop isallowed ks h)"

definition isallowed :: "core \<Rightarrow> version_metadata \<Rightarrow> bool" where
  "isallowed c rmeta =
     allowed_loop (length (AllowedPublicKeys c) = 0) (AllowedPublicKeys c)
       (EncodeToString (meta_key rmeta))"

text \<open>
  What \<^verbatim>\<open>handler\<close> has done when control is back with the goroutine's scheduler: it
  has returned \<^verbatim>\<open>(chan, error)\<close>, or it is inside
  \<^verbatim>\<open>HandleConn(key, conn, metric)\<close>, or it has panicked.
\<close>

datatype handler_result =
    Return "nat option" "error option"
  | InHandleConn "byte list" nat "64 word"
  | Panicked

text \<open>
  Line 221 and, as one step under the mutex, lines 222 to 240: copy the remote key into
  the link's \<open>info\<close>, look the key up; hand back the old link's channel, or make the
  channel and insert the link.
\<close>

definition register :: "nat \<Rightarrow> link \<Rightarrow> version_metadata \<Rightarrow> 64 word \<Rightarrow> 'tcp state
     \<Rightarrow> handler_result \<times> 'tcp state" where
  "register p intf rmeta mtr s =
     (let intf1 = intf\<lparr>info := (info intf)\<lparr>key := copy (key (info intf)) (meta_key rmeta)\<rparr>\<rparr>;
          s1 = s\<lparr>heap := (heap s)(p \<mapsto> intf1)\<rparr>
      in case links s1 (info intf1) of
           Some old \<Rightarrow>
             (case heap s1 old of
                None \<Rightarrow> (Panicked, s1)
              | Some oldIntf \<Rightarrow> (Return (closed oldIntf) None, s1))
         | None \<Rightarrow>
             (let (ch, s2) = make_chan s1;
                  intf2 = intf1\<lparr>closed := Some ch\<rparr>
              in (InHandleConn (key (info intf2)) (conn intf2) mtr,
                  s2\<lparr>heap := (heap s2)(p \<mapsto> intf2),
                     links := (links s2)(info intf2 \<mapsto> p),
                     running := insert p (running s2)\<rparr>)))"

text \<open>The error of line 202.\<close>

definition pinned_mismatch :: error where
  "pinned_mismatch =
     ErrorNew ''failed to connect: host sent ed25519 key that does not match pinned keys''"

text \<open>
  The body of \<^verbatim>\<open>handler\<close> up to the call of \<^verbatim>\<open>HandleConn\<close>, without the deferred
  \<^verbatim>\<open>conn.Close()\<close> of line 147. The allow-list branch (lines 214 to 219) calls
  \<^verbatim>\<open>intf.close()\<close>, which is \<^verbatim>\<open>intf.conn.Close()\<close>.
\<close>

definition handler_body :: "core \<Rightarrow> conn_io \<Rightarrow> nat \<Rightarrow> link \<Rightarrow> 'tcp state
     \<Rightarrow> handler_result \<times> 'tcp state" where
  "handler_body c io p intf s =
     (case negotiate c io intf of
        Inl err \<Rightarrow> (Return None (Some err), s)
      | Inr (rmeta, mtr) \<Rightarrow>
          if \<not> pinned_ok intf rmeta
          then (Return None (Some pinned_mismatch), s)
          else if incoming intf \<and> \<not> force intf \<and> \<not> isallowed c rmeta
          then (Return None None, conn_Close (conn intf) s)
          else register p intf rmeta mtr s)"

text \<open>
  \<^verbatim>\<open>handler\<close> from its entry to its first return or to the call of \<^verbatim>\<open>HandleConn\<close>.
  The deferred \<^verbatim>\<open>conn.Close()\<close> runs when the function returns.
\<close>

definition handler_begin :: "core \<Rightarrow> conn_io \<Rightarrow> nat \<Rightarrow> 'tcp state \<Rightarrow> handler_result \<times> 'tcp state" where
  "handler_begin c io p s =
     (case heap s p of
        None \<Rightarrow> (Panicked, s)
      | Some intf \<Rightarrow>
          (case handler_body c io p intf s of
             (InHandleConn k cn m, s1) \<Rightarrow> (InHandleConn k cn m, s1)
           | (r, s1) \<Rightarrow> (r, conn_Close (conn intf) s1)))"

text \<open>
  \<^verbatim>\<open>handler\<close> from the return of \<^verbatim>\<open>HandleConn\<close> with \<open>herr\<close>: it returns
  \<^verbatim>\<open>(nil, herr)\<close>; the deferred functions run last-in first-out: lines 232 to 237
  (delete the entry under the link's key, close the channel), then \<^verbatim>\<open>conn.Close()\<close>.
  A panic of \<^verbatim>\<open>close\<close> does not stop the remaining deferred call.
\<close>

definition handler_end :: "error option \<Rightarrow> nat \<Rightarrow> 'tcp state \<Rightarrow> handler_result \<times> 'tcp state" where
  "handler_end herr p s =
     (case heap s p of
        None \<Rightarrow> (Panicked, s)
      | Some intf \<Rightarrow>
          (let s1 = s\<lparr>links := (links s)(info intf := None), running := running s - {p}\<rparr>
           in case close_chan (closed intf) (chans s1) of
                None \<Rightarrow> (Panicked, conn_Close (conn intf) s1)
              | Some cs \<Rightarrow> (Return None herr, conn_Close (conn intf) (s1\<lparr>chans := cs\<rparr>))))"

text \<open>A whole run of \<^verbatim>\<open>handler\<close> with nothing else running in between.\<close>

definition handler :: "core \<Rightarrow> conn_io \<Rightarrow> error option \<Rightarrow> nat \<Rightarrow> 'tcp state
     \<Rightarrow> handler_result \<times> 'tcp state" where
  "handler c io herr p s =
     (case handler_begin c io p s of
        (InHandleConn k cn m, s1) \<Rightarrow> handler_end herr p s1
      | (r, s1) \<Rightarrow> (r, s1))"

subsection \<open>Reachable states\<close>

text \<open>
  The states of the registry a run of the program can be in. \<^verbatim>\<open>init\<close> runs once, on
  the zero value, before any link exists. After it, in any order and each with any
  inputs: links are created; \<^verbatim>\<open>handler\<close> starts on a link that is not inside
  \<^verbatim>\<open>HandleConn\<close> and runs to its return or to the call of \<^verbatim>\<open>HandleConn\<close>, the mutex
  making its access to the map one step; a \<^verbatim>\<open>handler\<close> inside \<^verbatim>\<open>HandleConn\<close> comes back and
  runs its deferred functions; peers are called; the registry is stopped. The steps of
  different goroutines interleave at these points.
\<close>

inductive reachable :: "'tcp state \<Rightarrow> bool" where
  reach_init: "reachable (snd (init tcp_init (zero_state t)))"
| reach_create:
    "reachable s \<Longrightarrow> reachable (snd (create cn name ltype lcl rmt inc frc opts s))"
| reach_begin:
    "reachable s \<Longrightarrow> p \<notin> running s \<Longrightarrow> reachable (snd (handler_begin c io p s))"
| reach_end:
    "reachable s \<Longrightarrow> p \<in> running s \<Longrightarrow> reachable (snd (handler_end herr p s))"
| reach_call:
    "reachable s \<Longrightarrow> reachable (snd (call tcp_call u sintf s))"
| reach_stop:
    "reachable s \<Longrightarrow> reachable (snd (stop tcp_stop s))"

subsection \<open>Predicates used in the statements\<close>

text \<open>The handshake leaves through the allow-list branch, lines 214 to 219.\<close>

definition allowlist_rejects :: "core \<Rightarrow> conn_io \<Rightarrow> link \<Rightarrow> bool" where
  "allowlist_rejects c io intf =
     (case negotiate c io intf of
        Inl err \<Rightarrow> False
      | Inr (rmeta, mtr) \<Rightarrow>
          pinned_ok intf rmeta \<and> incoming intf \<and> \<not> force intf \<and> \<not> isallowed c rmeta)"

text \<open>
  The invariant of the reachable states: every entry of the map is a link inside
  \<^verbatim>\<open>HandleConn\<close> whose key is the entry's key; every link inside \<^verbatim>\<open>HandleConn\<close> is the
  entry under its own key and its channel is open; the channels of two such links
  differ; channels and link objects lie below the allocation counters, and the stop
  channel is no link's channel.
\<close>

definition registry_inv :: "'tcp state \<Rightarrow> bool" where
  "registry_inv s \<longleftrightarrow>
     (\<forall>k p. links s k = Some p \<longrightarrow>
        p \<in> running s \<and> (\<exists>intf. heap s p = Some intf \<and> info intf = k))
   \<and> (\<forall>p. p \<in> running s \<longrightarrow>
        (\<exists>intf c. heap s p = Some intf \<and> links s (info intf) = Some p
           \<and> closed intf = Some c \<and> chans s c = Some False))
   \<and> (\<forall>p q ip iq. p \<in> running s \<longrightarrow> q \<in> running s \<longrightarrow> heap s p = Some ip \<longrightarrow> heap s q = Some iq
        \<longrightarrow> closed ip = closed iq \<longrightarrow> p = q)
   \<and> (\<forall>p intf c. heap s p = Some intf \<longrightarrow> closed intf = Some c \<longrightarrow>
        c < next_chan s \<and> stopped s \<noteq> Some c)
   \<and> (\<forall>c. stopped s = Some c \<longrightarrow> c < next_chan s)
   \<and> (\<forall>p. next_link s \<le> p \<longrightarrow> heap s p = None)"

subsection \<open>An example node\<close>

text \<open>
  Modelled from the spec: the metadata codec (\<^verbatim>\<open>encode\<close>, \<^verbatim>\<open>decode\<close>, \<^verbatim>\<open>check\<close>) is not
  among the sources. The wire format is a fixed-size header: one byte major version,
  one byte minor version, the key, one byte metric, with no length prefix; decoding
  fails on any other length; \<^verbatim>\<open>check\<close> accepts the local major version. It serves as
  the codec of the example node only; the theorems hold for every codec.
\<close>

definition wire_encode :: "version_metadata \<Rightarrow> byte list" where
  "wire_encode m = meta_ver m # meta_minorVer m # copy zeroKey (meta_key m) @ [meta_metric m]"

definition wire_decode :: "byte list \<Rightarrow> version_metadata option" where
  "wire_decode bs =
     (if length bs = PublicKeySize + 3
      then Some \<lparr>meta_ver = bs ! 0, meta_minorVer = bs ! 1,
                 meta_key = take PublicKeySize (drop 2 bs),
                 meta_metric = bs ! (PublicKeySize + 2)\<rparr>
      else None)"

definition ex_base :: version_metadata where
  "ex_base = \<lparr>meta_ver = 0, meta_minorVer = 4, meta_key = [], meta_metric = 0\<rparr>"

definition wire_check :: "version_metadata \<Rightarrow> bool" where
  "wire_check m = (meta_ver m = meta_ver ex_base)"

text \<open>The node, with a given allow-list.\<close>

definition ex_core :: "string list \<Rightarrow> core" where
  "ex_core allowed =
     \<lparr>public = replicate 32 7, AllowedPublicKeys = allowed,
      version_getBaseMetadata = ex_base, encode = wire_encode, decode = wire_decode,
      check = wire_check\<rparr>"

text \<open>A peer with key \<open>01 01 ...\<close> that advertises the metric \<open>m\<close>, and a connection
  that delivers its metadata in time.\<close>

definition ex_remote :: "8 word \<Rightarrow> version_metadata" where
  "ex_remote m = \<lparr>meta_ver = 0, meta_minorVer = 4, meta_key = replicate 32 1, meta_metric = m\<rparr>"

definition ex_io :: "8 word \<Rightarrow> conn_io" where
  "ex_io m =
     \<lparr>write_time = Some (29 * Second), write_n = 35, write_err = None,
      read_time = Some (29 * Second), read_n = 35, read_err = None,
      read_buf = wire_encode (ex_remote m)\<rparr>"

definition ex_opts :: linkOptions where
  "ex_opts = \<lparr>pinnedEd25519Keys = None, metric = 3\<rparr>"

text \<open>
  A run: \<^verbatim>\<open>init\<close>; an outgoing link 0 on connection 5 and an incoming link 1 on
  connection 6, with the same addresses; link 0 completes its handshake with the peer
  and is inside \<^verbatim>\<open>HandleConn\<close>.
\<close>

definition ex_state0 :: "unit state" where
  "ex_state0 = snd (init (\<lambda>t. (None, t)) (zero_state ()))"

definition ex_state1 :: "unit state" where
  "ex_state1 = snd (create 5 ''out'' ''tcp'' ''10.0.0.1:1'' ''10.0.0.2:2'' False False ex_opts ex_state0)"

definition ex_state2 :: "unit state" where
  "ex_state2 = snd (create 6 ''in'' ''tcp'' ''10.0.0.1:1'' ''10.0.0.2:2'' True False ex_opts ex_state1)"

definition ex_state3 :: "unit state" where
  "ex_state3 = snd (handler_begin (ex_core []) (ex_io 9) 0 ex_state2)"

text \<open>The two link objects as \<^verbatim>\<open>create\<close> makes them, and the key of the peer's entry.\<close>

definition ex_out :: link where
  "ex_out =
     \<lparr>lname = ''out'', conn = 5, options = ex_opts,
      info = \<lparr>key = zeroKey, linkType = ''tcp'', local = ''10.0.0.1:1'',
              remote = ''10.0.0.2:2''\<rparr>,
      incoming = False, force = False, closed = None\<rparr>"

definition ex_in :: link where
  "ex_in =
     \<lparr>lname = ''in'', conn = 6, options = ex_opts,
      info = \<lparr>key = zeroKey, linkType = ''tcp'', local = ''10.0.0.1:1'',
              remote = ''10.0.0.2:2''\<rparr>,
      incoming = True, force = False, closed = None\<rparr>"

definition ex_key :: linkInfo where
  "ex_key =
     \<lparr>key = replicate 32 1, linkType = ''tcp'', local = ''10.0.0.1:1'',
      remote = ''10.0.0.2:2''\<rparr>"

text \<open>After \<^verbatim>\<open>init\<close>, one link 0 on connection 7 whose options carry the given pinned
  set.\<close>

definition ex_pin_state :: "keyArray set option \<Rightarrow> unit state" where
  "ex_pin_state pinned =
     snd (create 7 ''pin'' ''tcp'' ''10.0.0.1:1'' ''10.0.0.3:3'' False False
            \<lparr>pinnedEd25519Keys = pinned, metric = 0\<rparr> ex_state0)"

text \<open>The link object of \<open>ex_pin_state\<close>.\<close>

definition ex_pin_link :: "keyArray set option \<Rightarrow> link" where
  "ex_pin_link pinned =
     \<lparr>lname = ''pin'', conn = 7, options = \<lparr>pinnedEd25519Keys = pinned, metric = 0\<rparr>,
      info = \<lparr>key = zeroKey, linkType = ''tcp'', local = ''10.0.0.1:1'',
              remote = ''10.0.0.3:3''\<rparr>,
      incoming = False, force = False, closed = None\<rparr>"

text \<open>An adapter whose \<^verbatim>\<open>call\<close> leaves its state as it is, one whose \<^verbatim>\<open>stop\<close> succeeds and
  one whose \<^verbatim>\<open>stop\<close> fails.\<close>

definition ex_tcp_call :: "string \<Rightarrow> tcpOptions \<Rightarrow> string \<Rightarrow> unit \<Rightarrow> unit" where
  "ex_tcp_call saddr opts sintf t = t"

definition ex_tcp_stop :: "unit \<Rightarrow> error option \<times> unit" where
  "ex_tcp_stop t = (None, t)"

definition ex_tcp_stop_fails :: "unit \<Rightarrow> error option \<times> unit" where
  "ex_tcp_stop_fails t = (Some (Foreign ''listener''), t)"

text \<open>A peer address with a scheme and \<^verbatim>\<open>ed25519\<close> query parameters.\<close>

definition ex_url :: "string \<Rightarrow> string list \<Rightarrow> URL" where
  "ex_url scheme pubkeys =
     \<lparr>Scheme = scheme, User = None, Host = ''10.0.0.2:2'', Path = [],
      Query = [''ed25519'' \<mapsto> pubkeys]\<rparr>"

section \<open>The invariant of the registry\<close>

lemma registry_invI:
  assumes "\<And>k p. links s k = Some p \<Longrightarrow> p \<in> running s \<and> (\<exists>intf. heap s p = Some intf \<and> info intf = k)"
    and "\<And>p. p \<in> running s \<Longrightarrow>
           \<exists>intf c. heap s p = Some intf \<and> links s (info intf) = Some p
             \<and> closed intf = Some c \<and> chans s c = Some False"
    and "\<And>p q ip iq. p \<in> running s \<Longrightarrow> q \<in> running s \<Longrightarrow> heap s p = Some ip \<Longrightarrow> heap s q = Some iq
           \<Longrightarrow> closed ip = closed iq \<Longrightarrow> p = q"
    and "\<And>p intf c. heap s p = Some intf \<Longrightarrow> closed intf = Some c \<Longrightarrow>
           c < next_chan s \<and> stopped s \<noteq> Some c"
    and "\<And>c. stopped s = Some c \<Longrightarrow> c < next_chan s"
    and "\<And>p. next_link s \<le> p \<Longrightarrow> heap s p = None"
  shows "registry_inv s"
  unfolding registry_inv_def using assms by blast

lemma inv_links:
  "registry_inv s \<Longrightarrow> links s k = Some p \<Longrightarrow>
     p \<in> running s \<and> (\<exists>intf. heap s p = Some intf \<and> info intf = k)"
  unfolding registry_inv_def by blast

lemma inv_running:
  "registry_inv s \<Longrightarrow> p \<in> running s \<Longrightarrow>
     \<exists>intf c. heap s p = Some intf \<and> links s (info intf) = Some p
       \<and> closed intf = Some c \<and> chans s c = Some False"
  unfolding registry_inv_def by blast

lemma inv_chan_distinct:
  "registry_inv s \<Longrightarrow> p \<in> running s \<Longrightarrow> q \<in> running s \<Longrightarrow> heap s p = Some ip \<Longrightarrow>
     heap s q = Some iq \<Longrightarrow> closed ip = closed iq \<Longrightarrow> p = q"
  unfolding registry_inv_def by blast

lemma inv_chan_bound:
  "registry_inv s \<Longrightarrow> heap s p = Some intf \<Longrightarrow> closed intf = Some c \<Longrightarrow>
     c < next_chan s \<and> stopped s \<noteq> Some c"
  unfolding registry_inv_def by blast

lemma inv_stopped_bound:
  "registry_inv s \<Longrightarrow> stopped s = Some c \<Longrightarrow> c < next_chan s"
  unfolding registry_inv_def by blast

lemma inv_heap_bound:
  "registry_inv s \<Longrightarrow> next_link s \<le> p \<Longrightarrow> heap s p = None"
  unfolding registry_inv_def by blast

lemma inv_init: "registry_inv (snd (init tcp_init (zero_state t)))"
  by (simp add: registry_inv_def init_def zero_state_def make_chan_def split: prod.splits)

lemma inv_frame:
  assumes "registry_inv s"
    and "links s' = links s" "heap s' = heap s" "chans s' = chans s" "running s' = running s"
    and "next_chan s' = next_chan s" "next_link s' = next_link s" "stopped s' = stopped s"
  shows "registry_inv s'"
  using assms unfolding registry_inv_def by simp

lemma inv_conn_Close: "registry_inv s \<Longrightarrow> registry_inv (conn_Close c s)"
  by (erule inv_frame) (simp_all add: conn_Close_def)

lemma inv_call:
  assumes "registry_inv s"
  shows "registry_inv (snd (call tcp_call u sintf s))"
  by (rule inv_frame [OF assms]) (simp_all add: call_def Let_def split: option.splits prod.splits)

lemma inv_create:
  assumes inv: "registry_inv s"
  shows "registry_inv (snd (create cn name ltype lcl rmt inc frc opts s))"
proof -
  define intf where "intf = \<lparr>lname = name, conn = cn, options = opts,
      info = \<lparr>key = zeroKey, linkType = ltype, local = lcl, remote = rmt\<rparr>,
      incoming = inc, force = frc, closed = None\<rparr>"
  define s' where "s' = s\<lparr>heap := (heap s)(next_link s \<mapsto> intf), next_link := Suc (next_link s)\<rparr>"
  have s': "snd (create cn name ltype lcl rmt inc frc opts s) = s'"
    by (simp add: create_def s'_def intf_def)
  have fresh: "heap s (next_link s) = None"
    using inv by (simp add: inv_heap_bound)
  have notrun: "next_link s \<notin> running s"
    using inv_running [OF inv] fresh by fastforce
  have old: "heap s' p = heap s p" if "p \<in> running s" for p
    using that notrun by (auto simp: s'_def)
  have "registry_inv s'"
  proof (rule registry_invI)
    fix k p assume "links s' k = Some p"
    then have l: "links s k = Some p" by (simp add: s'_def)
    from inv_links [OF inv l] show "p \<in> running s' \<and> (\<exists>intf. heap s' p = Some intf \<and> info intf = k)"
      using old [of p] by (simp add: s'_def)
  next
    fix p assume "p \<in> running s'"
    then have r: "p \<in> running s" by (simp add: s'_def)
    from inv_running [OF inv r] old [OF r]
    show "\<exists>intf c. heap s' p = Some intf \<and> links s' (info intf) = Some p
             \<and> closed intf = Some c \<and> chans s' c = Some False"
      by (simp add: s'_def)
  next
    fix p q ip iq
    assume "p \<in> running s'" "q \<in> running s'" "heap s' p = Some ip" "heap s' q = Some iq"
      "closed ip = closed iq"
    then show "p = q"
      using inv_chan_distinct [OF inv, of p q ip iq] old [of p] old [of q] by (simp add: s'_def)
  next
    fix p i c assume h: "heap s' p = Some i" "closed i = Some c"
    show "c < next_chan s' \<and> stopped s' \<noteq> Some c"
    proof (cases "p = next_link s")
      case True
      then have "i = intf" using h by (simp add: s'_def)
      then show ?thesis using h by (simp add: intf_def)
    next
      case False
      then have "heap s p = Some i" using h by (simp add: s'_def)
      from inv_chan_bound [OF inv this h(2)] show ?thesis by (simp add: s'_def)
    qed
  next
    fix c assume "stopped s' = Some c"
    then show "c < next_chan s'" using inv_stopped_bound [OF inv, of c] by (simp add: s'_def)
  next
    fix p assume "next_link s' \<le> p"
    then show "heap s' p = None" using inv_heap_bound [OF inv, of p] by (simp add: s'_def)
  qed
  then show ?thesis by (simp add: s')
qed

lemma inv_stop:
  assumes inv: "registry_inv s"
  shows "registry_inv (snd (stop tcp_stop s))"
proof (cases "close_chan (stopped s) (chans s)")
  case None
  then show ?thesis using assms by (simp add: stop_def)
next
  case (Some cs)
  then obtain c where c: "stopped s = Some c" "chans s c = Some False" "cs = (chans s)(c \<mapsto> True)"
    by (auto simp: close_chan_def split: option.splits bool.splits)
  define s' where "s' = s\<lparr>tcp := snd (tcp_stop (tcp s)), chans := cs\<rparr>"
  have s': "snd (stop tcp_stop s) = s'"
    using Some by (simp add: stop_def s'_def split: prod.splits)
  have "registry_inv s'"
  proof (rule registry_invI)
    fix k p assume "links s' k = Some p"
    then show "p \<in> running s' \<and> (\<exists>intf. heap s' p = Some intf \<and> info intf = k)"
      using inv_links [OF inv, of k p] by (simp add: s'_def)
  next
    fix p assume "p \<in> running s'"
    then have r: "p \<in> running s" by (simp add: s'_def)
    from inv_running [OF inv r] obtain intf d where
      d: "heap s p = Some intf" "links s (info intf) = Some p" "closed intf = Some d"
         "chans s d = Some False" by blast
    from inv_chan_bound [OF inv d(1) d(3)] c(1) have "d \<noteq> c" by auto
    then show "\<exists>intf c. heap s' p = Some intf \<and> links s' (info intf) = Some p
             \<and> closed intf = Some c \<and> chans s' c = Some False"
      using d by (simp add: s'_def c(3))
  next
    fix p q ip iq
    assume "p \<in> running s'" "q \<in> running s'" "heap s' p = Some ip" "heap s' q = Some iq"
      "closed ip = closed iq"
    then show "p = q"
      using inv_chan_distinct [OF inv, of p q ip iq] by (simp add: s'_def)
  next
    fix p i d assume "heap s' p = Some i" "closed i = Some d"
    then show "d < next_chan s' \<and> stopped s' \<noteq> Some d"
      using inv_chan_bound [OF inv, of p i d] by (simp add: s'_def)
  next
    fix d assume "stopped s' = Some d"
    then show "d < next_chan s'" using inv_stopped_bound [OF inv, of d] by (simp add: s'_def)
  next
    fix p assume "next_link s' \<le> p"
    then show "heap s' p = None" using inv_heap_bound [OF inv, of p] by (simp add: s'_def)
  qed
  then show ?thesis by (simp add: s')
qed


lemma register_dup:
  assumes "links s (info (intf\<lparr>info := (info intf)\<lparr>key := copy (key (info intf)) (meta_key rmeta)\<rparr>\<rparr>)) = Some old"
  shows "snd (register p intf rmeta mtr s)
         = s\<lparr>heap := (heap s)(p \<mapsto> intf\<lparr>info := (info intf)\<lparr>key := copy (key (info intf)) (meta_key rmeta)\<rparr>\<rparr>)\<rparr>"
  using assms by (simp add: register_def Let_def split: option.splits)

lemma register_new:
  assumes "links s (info (intf\<lparr>info := (info intf)\<lparr>key := copy (key (info intf)) (meta_key rmeta)\<rparr>\<rparr>)) = None"
  shows "register p intf rmeta mtr s
         = (InHandleConn (copy (key (info intf)) (meta_key rmeta)) (conn intf) mtr,
            s\<lparr>heap := (heap s)(p \<mapsto> intf\<lparr>info := (info intf)\<lparr>key := copy (key (info intf)) (meta_key rmeta)\<rparr>,
                                           closed := Some (next_chan s)\<rparr>),
              chans := (chans s)(next_chan s \<mapsto> False),
              next_chan := Suc (next_chan s),
              links := (links s)((info intf)\<lparr>key := copy (key (info intf)) (meta_key rmeta)\<rparr> \<mapsto> p),
              running := insert p (running s)\<rparr>)"
  using assms by (simp add: register_def Let_def make_chan_def)

lemma inv_register:
  assumes inv: "registry_inv s" and nr: "p \<notin> running s" and hp: "heap s p = Some intf"
  shows "registry_inv (snd (register p intf rmeta mtr s))"
proof -
  define k' where "k' = (info intf)\<lparr>key := copy (key (info intf)) (meta_key rmeta)\<rparr>"
  define intf1 where "intf1 = intf\<lparr>info := k'\<rparr>"
  have i1: "info intf1 = k'" "closed intf1 = closed intf" by (simp_all add: intf1_def)
  have notreg: "links s k \<noteq> Some p" for k
    using inv_links [OF inv, of k p] nr by blast
  show ?thesis
  proof (cases "links s k'")
    case (Some old)
    define s' where "s' = s\<lparr>heap := (heap s)(p \<mapsto> intf1)\<rparr>"
    have s': "snd (register p intf rmeta mtr s) = s'"
      using Some register_dup [of s intf rmeta old p mtr] by (simp add: s'_def intf1_def k'_def)
    have old: "heap s' q = heap s q" if "q \<in> running s" for q
      using that nr by (auto simp: s'_def)
    have "registry_inv s'"
    proof (rule registry_invI)
      fix k q assume "links s' k = Some q"
      then have l: "links s k = Some q" by (simp add: s'_def)
      from inv_links [OF inv l] show "q \<in> running s' \<and> (\<exists>intf. heap s' q = Some intf \<and> info intf = k)"
        using old [of q] by (simp add: s'_def)
    next
      fix q assume "q \<in> running s'"
      then have r: "q \<in> running s" by (simp add: s'_def)
      from inv_running [OF inv r] old [OF r]
      show "\<exists>intf c. heap s' q = Some intf \<and> links s' (info intf) = Some q
               \<and> closed intf = Some c \<and> chans s' c = Some False"
        by (simp add: s'_def)
    next
      fix q r iq ir
      assume "q \<in> running s'" "r \<in> running s'" "heap s' q = Some iq" "heap s' r = Some ir"
        "closed iq = closed ir"
      then show "q = r"
        using inv_chan_distinct [OF inv, of q r iq ir] old [of q] old [of r] by (simp add: s'_def)
    next
      fix q i c assume h: "heap s' q = Some i" "closed i = Some c"
      show "c < next_chan s' \<and> stopped s' \<noteq> Some c"
      proof (cases "q = p")
        case True
        then have "i = intf1" using h by (simp add: s'_def)
        then have "closed intf = Some c" using h i1 by simp
        from inv_chan_bound [OF inv hp this] show ?thesis by (simp add: s'_def)
      next
        case False
        then have "heap s q = Some i" using h by (simp add: s'_def)
        from inv_chan_bound [OF inv this h(2)] show ?thesis by (simp add: s'_def)
      qed
    next
      fix c assume "stopped s' = Some c"
      then show "c < next_chan s'" using inv_stopped_bound [OF inv, of c] by (simp add: s'_def)
    next
      fix q assume "next_link s' \<le> q"
      then have "heap s q = None" using inv_heap_bound [OF inv, of q] by (simp add: s'_def)
      then show "heap s' q = None" using hp by (auto simp: s'_def)
    qed
    then show ?thesis by (simp add: s')
  next
    case None
    define intf2 where "intf2 = intf1\<lparr>closed := Some (next_chan s)\<rparr>"
    define s' where "s' = s\<lparr>heap := (heap s)(p \<mapsto> intf2),
              chans := (chans s)(next_chan s \<mapsto> False),
              next_chan := Suc (next_chan s),
              links := (links s)(k' \<mapsto> p),
              running := insert p (running s)\<rparr>"
    have s': "snd (register p intf rmeta mtr s) = s'"
      using None register_new [of s intf rmeta p mtr] by (simp add: s'_def intf2_def intf1_def k'_def)
    have i2: "info intf2 = k'" "closed intf2 = Some (next_chan s)" by (simp_all add: intf2_def intf1_def)
    have old: "heap s' q = heap s q" if "q \<in> running s" for q
      using that nr by (auto simp: s'_def)
    have hp': "heap s' p = Some intf2" by (simp add: s'_def)
    have "registry_inv s'"
    proof (rule registry_invI)
      fix k q assume l: "links s' k = Some q"
      show "q \<in> running s' \<and> (\<exists>intf. heap s' q = Some intf \<and> info intf = k)"
      proof (cases "k = k'")
        case True
        then have "q = p" using l by (simp add: s'_def)
        then show ?thesis using True hp' i2 by (simp add: s'_def)
      next
        case False
        then have l0: "links s k = Some q" using l by (simp add: s'_def)
        from inv_links [OF inv l0] old [of q] show ?thesis by (simp add: s'_def)
      qed
    next
      fix q assume rq: "q \<in> running s'"
      show "\<exists>intf c. heap s' q = Some intf \<and> links s' (info intf) = Some q
               \<and> closed intf = Some c \<and> chans s' c = Some False"
      proof (cases "q = p")
        case True
        then show ?thesis using hp' i2 by (simp add: s'_def)
      next
        case False
        then have r: "q \<in> running s" using rq by (simp add: s'_def)
        from inv_running [OF inv r] obtain iq d where
          d: "heap s q = Some iq" "links s (info iq) = Some q" "closed iq = Some d"
             "chans s d = Some False" by blast
        have "info iq \<noteq> k'" using d(2) None by auto
        moreover have "d \<noteq> next_chan s" using inv_chan_bound [OF inv d(1) d(3)] by auto
        ultimately show ?thesis using d old [OF r] by (simp add: s'_def)
      qed
    next
      fix q r iq ir
      assume a: "q \<in> running s'" "r \<in> running s'" "heap s' q = Some iq" "heap s' r = Some ir"
        "closed iq = closed ir"
      have bound: "closed i \<noteq> Some (next_chan s)" if "heap s x = Some i" for x i
        using inv_chan_bound [OF inv that, of "next_chan s"] by auto
      show "q = r"
      proof (cases "q = p")
        case qp: True
        show ?thesis
        proof (cases "r = p")
          case True
          then show ?thesis using qp by simp
        next
          case False
          then have "heap s r = Some ir" using a by (simp add: s'_def)
          from bound [OF this] a qp hp' i2 show ?thesis by simp
        qed
      next
        case qp: False
        then have hq: "heap s q = Some iq" using a by (simp add: s'_def)
        show ?thesis
        proof (cases "r = p")
          case True
          from bound [OF hq] a True hp' i2 show ?thesis by simp
        next
          case False
          then have "heap s r = Some ir" using a by (simp add: s'_def)
          with inv_chan_distinct [OF inv, of q r iq ir] a hq qp False show ?thesis
            by (simp add: s'_def)
        qed
      qed
    next
      fix q i c assume h: "heap s' q = Some i" "closed i = Some c"
      show "c < next_chan s' \<and> stopped s' \<noteq> Some c"
      proof (cases "q = p")
        case True
        then have "i = intf2" using h hp' by simp
        then have "c = next_chan s" using h i2 by simp
        then show ?thesis using inv_stopped_bound [OF inv, of c] by (auto simp: s'_def)
      next
        case False
        then have "heap s q = Some i" using h by (simp add: s'_def)
        from inv_chan_bound [OF inv this h(2)] show ?thesis by (simp add: s'_def)
      qed
    next
      fix c assume "stopped s' = Some c"
      then show "c < next_chan s'" using inv_stopped_bound [OF inv, of c] by (simp add: s'_def)
    next
      fix q assume "next_link s' \<le> q"
      then have "heap s q = None" using inv_heap_bound [OF inv, of q] by (simp add: s'_def)
      then show "heap s' q = None" using hp by (auto simp: s'_def)
    qed
    then show ?thesis by (simp add: s')
  qed
qed


lemma handler_body_disj:
  "(\<exists>err. handler_body c io p intf s = (Return None (Some err), s))
   \<or> handler_body c io p intf s = (Return None None, conn_Close (conn intf) s)
   \<or> (\<exists>rmeta mtr. handler_body c io p intf s = register p intf rmeta mtr s)"
  unfolding handler_body_def by (auto split: sum.splits prod.splits)

lemma handler_body_cases:
  obtains (fail) err where "handler_body c io p intf s = (Return None (Some err), s)"
  | (reject) "handler_body c io p intf s = (Return None None, conn_Close (conn intf) s)"
  | (reg) rmeta mtr where "handler_body c io p intf s = register p intf rmeta mtr s"
  using handler_body_disj [of c io p intf s] by blast

lemma snd_handler_begin:
  assumes "heap s p = Some intf"
  shows "snd (handler_begin c io p s) = snd (handler_body c io p intf s)
       \<or> snd (handler_begin c io p s) = conn_Close (conn intf) (snd (handler_body c io p intf s))"
  using assms by (simp add: handler_begin_def split: prod.splits handler_result.splits)

lemma inv_handler_body:
  assumes inv: "registry_inv s" and nr: "p \<notin> running s" and hp: "heap s p = Some intf"
  shows "registry_inv (snd (handler_body c io p intf s))"
proof (cases rule: handler_body_cases [of c io p intf s])
  case (fail err)
  then show ?thesis using inv by simp
next
  case reject
  then show ?thesis using inv by (simp add: inv_conn_Close)
next
  case (reg rmeta mtr)
  then show ?thesis using inv_register [OF inv nr hp] by simp
qed

lemma inv_handler_begin:
  assumes inv: "registry_inv s" and nr: "p \<notin> running s"
  shows "registry_inv (snd (handler_begin c io p s))"
proof (cases "heap s p")
  case None
  then show ?thesis using inv by (simp add: handler_begin_def)
next
  case (Some intf)
  from snd_handler_begin [OF Some, of c io] inv_handler_body [OF inv nr Some, of c io]
  show ?thesis by (auto intro: inv_conn_Close)
qed

lemma handler_end_running:
  assumes inv: "registry_inv s" and r: "p \<in> running s"
  obtains intf ch where "heap s p = Some intf" "links s (info intf) = Some p"
    "closed intf = Some ch" "chans s ch = Some False"
    "handler_end herr p s =
       (Return None herr,
        conn_Close (conn intf)
          (s\<lparr>links := (links s)(info intf := None), running := running s - {p},
             chans := (chans s)(ch \<mapsto> True)\<rparr>))"
proof -
  from inv_running [OF inv r] obtain intf ch where
    d: "heap s p = Some intf" "links s (info intf) = Some p" "closed intf = Some ch"
       "chans s ch = Some False" by blast
  then have "handler_end herr p s =
       (Return None herr,
        conn_Close (conn intf)
          (s\<lparr>links := (links s)(info intf := None), running := running s - {p},
             chans := (chans s)(ch \<mapsto> True)\<rparr>))"
    by (simp add: handler_end_def close_chan_def Let_def)
  with d that show ?thesis by blast
qed

lemma inv_handler_end:
  assumes inv: "registry_inv s" and r: "p \<in> running s"
  shows "registry_inv (snd (handler_end herr p s))"
proof -
  from handler_end_running [OF inv r, of herr] obtain intf ch where
    d: "heap s p = Some intf" "links s (info intf) = Some p" "closed intf = Some ch"
       "chans s ch = Some False"
    and e: "handler_end herr p s =
       (Return None herr,
        conn_Close (conn intf)
          (s\<lparr>links := (links s)(info intf := None), running := running s - {p},
             chans := (chans s)(ch \<mapsto> True)\<rparr>))"
    by blast
  define s' where "s' = s\<lparr>links := (links s)(info intf := None), running := running s - {p},
             chans := (chans s)(ch \<mapsto> True)\<rparr>"
  have "registry_inv s'"
  proof (rule registry_invI)
    fix k q assume l: "links s' k = Some q"
    then have k: "k \<noteq> info intf" and l0: "links s k = Some q"
      by (auto simp: s'_def split: if_splits)
    from inv_links [OF inv l0] obtain iq where iq: "q \<in> running s" "heap s q = Some iq" "info iq = k"
      by blast
    then have "q \<noteq> p" using d(1) k by auto
    then show "q \<in> running s' \<and> (\<exists>intf. heap s' q = Some intf \<and> info intf = k)"
      using iq by (simp add: s'_def)
  next
    fix q assume "q \<in> running s'"
    then have rq: "q \<in> running s" and qp: "q \<noteq> p" by (auto simp: s'_def)
    from inv_running [OF inv rq] obtain iq dq where
      q: "heap s q = Some iq" "links s (info iq) = Some q" "closed iq = Some dq"
         "chans s dq = Some False" by blast
    have "info iq \<noteq> info intf" using q(2) d(2) qp by auto
    moreover have "dq \<noteq> ch"
      using inv_chan_distinct [OF inv rq r q(1) d(1)] q(3) d(3) qp by auto
    ultimately show "\<exists>intf c. heap s' q = Some intf \<and> links s' (info intf) = Some q
               \<and> closed intf = Some c \<and> chans s' c = Some False"
      using q by (simp add: s'_def)
  next
    fix q r iq ir
    assume "q \<in> running s'" "r \<in> running s'" "heap s' q = Some iq" "heap s' r = Some ir"
      "closed iq = closed ir"
    then show "q = r"
      using inv_chan_distinct [OF inv, of q r iq ir] by (simp add: s'_def)
  next
    fix q i c assume "heap s' q = Some i" "closed i = Some c"
    then show "c < next_chan s' \<and> stopped s' \<noteq> Some c"
      using inv_chan_bound [OF inv, of q i c] by (simp add: s'_def)
  next
    fix c assume "stopped s' = Some c"
    then show "c < next_chan s'" using inv_stopped_bound [OF inv, of c] by (simp add: s'_def)
  next
    fix q assume "next_link s' \<le> q"
    then show "heap s' q = None" using inv_heap_bound [OF inv, of q] by (simp add: s'_def)
  qed
  then show ?thesis using e by (simp add: s'_def inv_conn_Close)
qed

lemma reachable_inv: "reachable s \<Longrightarrow> registry_inv s"
proof (induction rule: reachable.induct)
  case (reach_init tcp_init t)
  show ?case by (rule inv_init)
next
  case (reach_create s cn name ltype lcl rmt inc frc opts)
  then show ?case by (simp add: inv_create)
next
  case (reach_begin s p c io)
  then show ?case by (simp add: inv_handler_begin)
next
  case (reach_end s p herr)
  then show ?case by (simp add: inv_handler_end)
next
  case (reach_call s tcp_call u sintf)
  then show ?case by (simp add: inv_call)
next
  case (reach_stop s tcp_stop)
  then show ?case by (simp add: inv_stop)
qed

section \<open>The paths of \<^verbatim>\<open>handler\<close>\<close>

lemma ucast_less_8_64: "((ucast (a :: 8 word) :: 64 word) < ucast (b :: 8 word)) = (a < b)"
  by (simp add: word_less_alt uint_up_ucast is_up)

lemma ucast_max_8_64:
  "(if (ucast (a :: 8 word) :: 64 word) < ucast (b :: 8 word) then ucast b else ucast a)
     = (ucast (max a b) :: 64 word)"
  by (auto simp add: ucast_less_8_64 max_def)

lemma unat_ucast_8_64: "unat (ucast (x :: 8 word) :: 64 word) = unat x"
proof -
  have "uint (ucast x :: 64 word) = uint x"
    by (rule uint_up_ucast) (simp add: is_up)
  then show ?thesis by (simp only: unat_eq_nat_uint)
qed

lemma unat_max_8: "unat (max (a :: 8 word) b) = max (unat a) (unat b)"
  by (simp add: max_def word_le_nat_alt)

lemma negotiate_Inr:
  assumes "negotiate c io intf = Inr (rmeta, mtr)"
  shows "send_meta io (local_metaBytes c intf) = None"
    and "recv_meta io (local_metaBytes c intf) = None"
    and "decode c (read_buf io) = Some rmeta"
    and "check c rmeta"
    and "mtr = ucast (max (metric (options intf)) (meta_metric rmeta))"
  using assms unfolding negotiate_def Let_def ucast_max_8_64
  by (auto split: option.splits if_splits)

lemma allowed_loop_eq: "allowed_loop b ks h = (b \<or> h \<in> set ks)"
  by (induction ks) auto

lemma isallowed_eq:
  "isallowed c rmeta =
     (AllowedPublicKeys c = [] \<or> EncodeToString (meta_key rmeta) \<in> set (AllowedPublicKeys c))"
  by (simp add: isallowed_def allowed_loop_eq)

lemma handler_begin_fail:
  assumes "heap s p = Some intf" and "negotiate c io intf = Inl err"
  shows "handler_begin c io p s = (Return None (Some err), conn_Close (conn intf) s)"
  using assms by (simp add: handler_begin_def handler_body_def)

lemma handler_begin_pinned:
  assumes "heap s p = Some intf" and "negotiate c io intf = Inr (rmeta, mtr)"
    and "\<not> pinned_ok intf rmeta"
  shows "handler_begin c io p s = (Return None (Some pinned_mismatch), conn_Close (conn intf) s)"
  using assms by (simp add: handler_begin_def handler_body_def)

lemma handler_begin_reject:
  assumes "heap s p = Some intf" and "negotiate c io intf = Inr (rmeta, mtr)"
    and "pinned_ok intf rmeta" and "incoming intf" and "\<not> force intf" and "\<not> isallowed c rmeta"
  shows "handler_begin c io p s
         = (Return None None, conn_Close (conn intf) (conn_Close (conn intf) s))"
  using assms by (simp add: handler_begin_def handler_body_def)

lemma handler_begin_register:
  assumes "heap s p = Some intf" and "negotiate c io intf = Inr (rmeta, mtr)"
    and "pinned_ok intf rmeta" and "\<not> (incoming intf \<and> \<not> force intf \<and> \<not> isallowed c rmeta)"
  shows "handler_begin c io p s
         = (case register p intf rmeta mtr s of
              (InHandleConn k cn m, s1) \<Rightarrow> (InHandleConn k cn m, s1)
            | (r, s1) \<Rightarrow> (r, conn_Close (conn intf) s1))"
proof -
  have "(incoming intf \<and> \<not> force intf \<and> \<not> isallowed c rmeta) = False"
    using assms(4) by blast
  then show ?thesis
    using assms(1-3) unfolding handler_begin_def handler_body_def by simp blast
qed

lemma register_InHandleConn:
  assumes "register p intf rmeta mtr s = (InHandleConn k cn m, s')"
  shows "m = mtr"
  using assms
  by (auto simp: register_def Let_def make_chan_def split: option.splits)

lemma handler_begin_InHandleConn:
  assumes h: "heap s p = Some intf" and r: "handler_begin c io p s = (InHandleConn k cn m, s')"
  shows "\<exists>rmeta. negotiate c io intf = Inr (rmeta, m)"
proof (cases "negotiate c io intf")
  case (Inl err)
  from handler_begin_fail [OF h Inl] r show ?thesis by simp
next
  case (Inr x)
  obtain rmeta mtr where x: "x = (rmeta, mtr)" by (cases x)
  have n: "negotiate c io intf = Inr (rmeta, mtr)" using Inr x by simp
  show ?thesis
  proof (cases "pinned_ok intf rmeta")
    case False
    from handler_begin_pinned [OF h n False] r show ?thesis by simp
  next
    case pin: True
    show ?thesis
    proof (cases "incoming intf \<and> \<not> force intf \<and> \<not> isallowed c rmeta")
      case True
      with handler_begin_reject [OF h n pin] r show ?thesis by simp
    next
      case False
      obtain r1 s1 where reg: "register p intf rmeta mtr s = (r1, s1)"
        by (cases "register p intf rmeta mtr s")
      from handler_begin_register [OF h n pin False] r reg
      have "r1 = InHandleConn k cn m \<and> s1 = s'"
        by (cases r1) (simp_all)
      with reg register_InHandleConn have "m = mtr" by blast
      with n show ?thesis by blast
    qed
  qed
qed

section \<open>The example run, evaluated\<close>

lemma length_copy: "length (copy dst src) = length dst"
  by (simp add: copy_def)

lemma copy_same_length: "length src = length dst \<Longrightarrow> copy dst src = src"
  by (simp add: copy_def)

lemma length_zeroKey: "length zeroKey = 32"
  by (simp add: zeroKey_def PublicKeySize_def)

lemma length_wire_encode: "length (wire_encode m) = 35"
  by (simp add: wire_encode_def length_copy length_zeroKey)

lemma wire_decode_encode:
  "length (meta_key m) = 32 \<Longrightarrow> wire_decode (wire_encode m) = Some m"
  by (simp add: wire_decode_def wire_encode_def length_copy length_zeroKey PublicKeySize_def
      copy_same_length nth_append)

lemma ex_local_metaBytes: "length (local_metaBytes (ex_core a) intf) = 35"
  by (simp add: local_metaBytes_def ex_core_def length_wire_encode)

lemma ex_send: "send_meta (ex_io m) (local_metaBytes (ex_core a) intf) = None"
  by (simp add: send_meta_def ex_io_def FuncTimeout_def Second_def ex_local_metaBytes)

lemma ex_recv: "recv_meta (ex_io m) (local_metaBytes (ex_core a) intf) = None"
  by (simp add: recv_meta_def ex_io_def FuncTimeout_def Second_def ex_local_metaBytes)

lemma ex_decode: "decode (ex_core a) (read_buf (ex_io m)) = Some (ex_remote m)"
  by (simp add: ex_core_def ex_io_def wire_decode_encode ex_remote_def)

lemma ex_check: "check (ex_core a) (ex_remote m)"
  by (simp add: ex_core_def wire_check_def ex_remote_def ex_base_def)

lemma ex_negotiate:
  "negotiate (ex_core a) (ex_io m) intf =
     Inr (ex_remote m,
          if (ucast (metric (options intf)) :: 64 word) < ucast m then ucast m
          else ucast (metric (options intf)))"
  by (simp add: negotiate_def ex_send ex_recv ex_decode ex_check Let_def) (simp add: ex_remote_def)

lemma ex_hex: "EncodeToString (meta_key (ex_remote m)) =
  ''0101010101010101010101010101010101010101010101010101010101010101''"
  unfolding ex_remote_def by code_simp

lemma ex_state0_eq:
  "ex_state0 = \<lparr>links = Map.empty, tcp = (), stopped = Some 0, heap = Map.empty, next_link = 0,
      chans = [0 \<mapsto> False], next_chan = 1, conns = (\<lambda>_. 0), running = {}\<rparr>"
  by (simp add: ex_state0_def init_def zero_state_def make_chan_def)

lemma ex_state2_eq:
  "ex_state2 = \<lparr>links = Map.empty, tcp = (), stopped = Some 0, heap = [0 \<mapsto> ex_out, 1 \<mapsto> ex_in],
      next_link = 2, chans = [0 \<mapsto> False], next_chan = 1, conns = (\<lambda>_. 0), running = {}\<rparr>"
  by (simp add: ex_state2_def ex_state1_def ex_state0_eq create_def ex_out_def ex_in_def)

lemma ex_copy_key: "copy zeroKey (meta_key (ex_remote m)) = replicate 32 1"
  by (simp add: ex_remote_def copy_same_length length_zeroKey)

lemma ex_handshake:
  "handler_begin (ex_core []) (ex_io 9) 0 ex_state2 =
     (InHandleConn (replicate 32 1) 5 9,
      \<lparr>links = [ex_key \<mapsto> 0], tcp = (), stopped = Some 0,
       heap = [0 \<mapsto> ex_out\<lparr>info := ex_key, closed := Some 1\<rparr>, 1 \<mapsto> ex_in],
       next_link = 2, chans = [0 \<mapsto> False, 1 \<mapsto> False], next_chan = 2, conns = (\<lambda>_. 0),
       running = {0}\<rparr>)"
proof -
  have h: "heap ex_state2 0 = Some ex_out" by (simp add: ex_state2_eq)
  have n: "negotiate (ex_core []) (ex_io 9) ex_out = Inr (ex_remote 9, 9)"
    by (simp add: ex_negotiate ex_out_def ex_opts_def)
  have p: "pinned_ok ex_out (ex_remote 9)" by (simp add: pinned_ok_def ex_out_def ex_opts_def)
  have a: "\<not> (incoming ex_out \<and> \<not> force ex_out \<and> \<not> isallowed (ex_core []) (ex_remote 9))"
    by (simp add: ex_out_def)
  have k: "(info ex_out)\<lparr>key := copy (key (info ex_out)) (meta_key (ex_remote 9))\<rparr> = ex_key"
    by (simp add: ex_out_def ex_copy_key ex_key_def)
  have r: "register 0 ex_out (ex_remote 9) 9 ex_state2 =
     (InHandleConn (replicate 32 1) 5 9,
      \<lparr>links = [ex_key \<mapsto> 0], tcp = (), stopped = Some 0,
       heap = [0 \<mapsto> ex_out\<lparr>info := ex_key, closed := Some 1\<rparr>, 1 \<mapsto> ex_in],
       next_link = 2, chans = [0 \<mapsto> False, 1 \<mapsto> False], next_chan = 2, conns = (\<lambda>_. 0),
       running = {0}\<rparr>)"
    unfolding register_def Let_def k
    by (simp add: ex_state2_eq make_chan_def ex_key_def fun_upd_twist) (simp add: ex_out_def)
  show ?thesis
    unfolding handler_begin_register [OF h n p a] r by simp
qed

section \<open>More on the paths of \<^verbatim>\<open>handler\<close>\<close>

lemma negotiate_cases:
  "(\<exists>err. negotiate c io intf = Inl err)
   \<or> (\<exists>rmeta mtr. negotiate c io intf = Inr (rmeta, mtr) \<and> decode c (read_buf io) = Some rmeta)"
  unfolding negotiate_def Let_def by (auto split: option.splits)

lemma negotiate_reaches_pinned:
  assumes "send_meta io (local_metaBytes c intf) = None"
    and "recv_meta io (local_metaBytes c intf) = None"
    and "decode c (read_buf io) = Some rmeta" and "check c rmeta"
  shows "\<exists>mtr. negotiate c io intf = Inr (rmeta, mtr)"
  using assms by (simp add: negotiate_def Let_def)

lemma send_meta_None:
  "(send_meta io b = None) =
     ((\<exists>t. write_time io = Some t \<and> t < 30 * Second) \<and> write_err io = None
        \<and> write_n io = int (length b))"
  by (auto simp: send_meta_def FuncTimeout_def split: option.splits)

lemma recv_meta_None:
  "(recv_meta io b = None) =
     ((\<exists>t. read_time io = Some t \<and> t < 30 * Second) \<and> read_err io = None
        \<and> read_n io = int (length b))"
  by (auto simp: recv_meta_def FuncTimeout_def split: option.splits)

lemma negotiate_send_fail:
  "send_meta io (local_metaBytes c intf) = Some err \<Longrightarrow> negotiate c io intf = Inl err"
  by (simp add: negotiate_def Let_def)

lemma negotiate_recv_fail:
  "send_meta io (local_metaBytes c intf) = None \<Longrightarrow>
   recv_meta io (local_metaBytes c intf) = Some err \<Longrightarrow> negotiate c io intf = Inl err"
  by (simp add: negotiate_def Let_def)

lemma register_dup_result:
  assumes "links s ((info intf)\<lparr>key := copy (key (info intf)) (meta_key rmeta)\<rparr>) = Some old"
  shows "\<exists>r s1. register p intf rmeta mtr s = (r, s1) \<and> (\<forall>k cn m. r \<noteq> InHandleConn k cn m)
           \<and> links s1 = links s \<and> conns s1 = conns s \<and> running s1 = running s"
  using assms by (simp add: register_def Let_def split: option.splits)

lemma handler_paths:
  assumes h: "heap s p = Some intf"
  shows
    "(\<not> allowlist_rejects c io intf
        \<and> (\<exists>err. handler_begin c io p s = (Return None (Some err), conn_Close (conn intf) s)))
   \<or> (allowlist_rejects c io intf
        \<and> handler_begin c io p s
            = (Return None None, conn_Close (conn intf) (conn_Close (conn intf) s)))
   \<or> (\<not> allowlist_rejects c io intf
        \<and> (\<exists>r s1. handler_begin c io p s = (r, conn_Close (conn intf) s1)
              \<and> (\<forall>k cn m. r \<noteq> InHandleConn k cn m)
              \<and> links s1 = links s \<and> conns s1 = conns s \<and> running s1 = running s))
   \<or> (\<not> allowlist_rejects c io intf
        \<and> (\<exists>k m. links s ((info intf)\<lparr>key := k\<rparr>) = None
              \<and> handler_begin c io p s
                  = (InHandleConn k (conn intf) m,
                     s\<lparr>heap := (heap s)(p \<mapsto> intf\<lparr>info := (info intf)\<lparr>key := k\<rparr>,
                                                   closed := Some (next_chan s)\<rparr>),
                       chans := (chans s)(next_chan s \<mapsto> False),
                       next_chan := Suc (next_chan s),
                       links := (links s)((info intf)\<lparr>key := k\<rparr> \<mapsto> p),
                       running := insert p (running s)\<rparr>)))"
proof (cases "negotiate c io intf")
  case (Inl err)
  then have "\<not> allowlist_rejects c io intf" by (simp add: allowlist_rejects_def)
  with handler_begin_fail [OF h Inl] show ?thesis by blast
next
  case (Inr x)
  obtain rmeta mtr where n: "negotiate c io intf = Inr (rmeta, mtr)"
    using Inr by (cases x) simp
  show ?thesis
  proof (cases "pinned_ok intf rmeta")
    case False
    then have "\<not> allowlist_rejects c io intf" by (simp add: allowlist_rejects_def n)
    with handler_begin_pinned [OF h n False] show ?thesis by blast
  next
    case pin: True
    show ?thesis
    proof (cases "incoming intf \<and> \<not> force intf \<and> \<not> isallowed c rmeta")
      case True
      then have "allowlist_rejects c io intf" by (simp add: allowlist_rejects_def n pin)
      with handler_begin_reject [OF h n pin] True show ?thesis by blast
    next
      case False
      then have nr: "\<not> allowlist_rejects c io intf" by (auto simp: allowlist_rejects_def n)
      note hb = handler_begin_register [OF h n pin False]
      let ?k = "copy (key (info intf)) (meta_key rmeta)"
      show ?thesis
      proof (cases "links s ((info intf)\<lparr>key := ?k\<rparr>)")
        case (Some old)
        from register_dup_result [OF Some, of p mtr] obtain r s1 where
          r: "register p intf rmeta mtr s = (r, s1)" "\<forall>k cn m. r \<noteq> InHandleConn k cn m"
             "links s1 = links s" "conns s1 = conns s" "running s1 = running s" by blast
        have "handler_begin c io p s = (r, conn_Close (conn intf) s1)"
          using hb r(1,2) by (cases r) simp_all
        with nr r show ?thesis by blast
      next
        case None
        then have "links s (info (intf\<lparr>info := (info intf)\<lparr>key := ?k\<rparr>\<rparr>)) = None" by simp
        from register_new [OF this, of p mtr] hb
        have "handler_begin c io p s
                  = (InHandleConn ?k (conn intf) mtr,
                     s\<lparr>heap := (heap s)(p \<mapsto> intf\<lparr>info := (info intf)\<lparr>key := ?k\<rparr>,
                                                   closed := Some (next_chan s)\<rparr>),
                       chans := (chans s)(next_chan s \<mapsto> False),
                       next_chan := Suc (next_chan s),
                       links := (links s)((info intf)\<lparr>key := ?k\<rparr> \<mapsto> p),
                       running := insert p (running s)\<rparr>)"
          by simp
        with nr None show ?thesis by blast
      qed
    qed
  qed
qed

lemma pin_keys_none:
  "\<forall>pk \<in> set pubkeys. DecodeString pk = None \<Longrightarrow> pin_keys pubkeys pinned = pinned"
  by (induction pubkeys arbitrary: pinned) simp_all

section \<open>More of the example run\<close>

lemma ex_state3_eq:
  "ex_state3 =
     \<lparr>links = [ex_key \<mapsto> 0], tcp = (), stopped = Some 0,
      heap = [0 \<mapsto> ex_out\<lparr>info := ex_key, closed := Some 1\<rparr>, 1 \<mapsto> ex_in],
      next_link = 2, chans = [0 \<mapsto> False, 1 \<mapsto> False], next_chan = 2, conns = (\<lambda>_. 0),
      running = {0}\<rparr>"
  by (simp add: ex_state3_def ex_handshake)

lemma ex_reachable: "reachable ex_state3"
proof -
  have "reachable ex_state0"
    unfolding ex_state0_def by (rule reach_init)
  then have "reachable ex_state1"
    unfolding ex_state1_def by (rule reach_create)
  then have 2: "reachable ex_state2"
    unfolding ex_state2_def by (rule reach_create)
  have "0 \<notin> running ex_state2" by (simp add: ex_state2_eq)
  with 2 show ?thesis
    unfolding ex_state3_def by (rule reach_begin)
qed

lemma ex_not_rejected: "\<not> allowlist_rejects (ex_core []) (ex_io m) intf"
  by (simp add: allowlist_rejects_def ex_negotiate isallowed_eq) (simp add: ex_core_def)

lemma ex_pin_state_eq:
  "ex_pin_state pinned =
     \<lparr>links = Map.empty, tcp = (), stopped = Some 0, heap = [0 \<mapsto> ex_pin_link pinned],
      next_link = 1, chans = [0 \<mapsto> False], next_chan = 1, conns = (\<lambda>_. 0), running = {}\<rparr>"
  by (simp add: ex_pin_state_def ex_state0_eq create_def ex_pin_link_def)

lemma ex_DecodeString_zz: "DecodeString ''zz'' = None"
  by (simp add: fromHexChar_def)

section \<open>The claims\<close>

subsection \<open>C1: one live link per key, and what a duplicate gets\<close>

text \<open>
  C1. In every reachable state, two links inside \<^verbatim>\<open>HandleConn\<close> with the same
  \<^verbatim>\<open>linkInfo\<close> are the same link; every entry of the map is such a link, stored under
  its own key, and every such link is the entry under its key. When a handshake that
  has passed the version, pinned-key and allow-list checks finds an entry under its
  key, \<^verbatim>\<open>handler\<close> returns the closure channel of that entry's link, which is still
  open, with a nil error; the map, the set of live links and the channels stay as they
  were.
\<close>

theorem one_live_link_per_key:
  assumes r: "reachable s"
  shows "(\<forall>p q ip iq. p \<in> running s \<and> q \<in> running s \<and> heap s p = Some ip \<and> heap s q = Some iq
            \<and> info ip = info iq \<longrightarrow> p = q)
       \<and> (\<forall>k p. links s k = Some p \<longrightarrow>
            p \<in> running s \<and> (\<exists>ip. heap s p = Some ip \<and> info ip = k))
       \<and> (\<forall>p. p \<in> running s \<longrightarrow> (\<exists>ip. heap s p = Some ip \<and> links s (info ip) = Some p))
       \<and> (\<forall>p intf c io rmeta mtr old.
            p \<notin> running s \<and> heap s p = Some intf
            \<and> negotiate c io intf = Inr (rmeta, mtr) \<and> pinned_ok intf rmeta
            \<and> \<not> (incoming intf \<and> \<not> force intf \<and> \<not> isallowed c rmeta)
            \<and> links s ((info intf)\<lparr>key := copy (key (info intf)) (meta_key rmeta)\<rparr>) = Some old
          \<longrightarrow> (\<exists>oldIntf ch. old \<in> running s \<and> heap s old = Some oldIntf
                 \<and> closed oldIntf = Some ch \<and> chans s ch = Some False
                 \<and> fst (handler_begin c io p s) = Return (Some ch) None
                 \<and> links (snd (handler_begin c io p s)) = links s
                 \<and> running (snd (handler_begin c io p s)) = running s
                 \<and> chans (snd (handler_begin c io p s)) = chans s))"
proof -
  have inv: "registry_inv s" by (rule reachable_inv [OF r])
  have 1: "p = q" if "p \<in> running s" "q \<in> running s" "heap s p = Some ip" "heap s q = Some iq"
    "info ip = info iq" for p q ip iq
  proof -
    from inv_running [OF inv that(1)] that(3) have "links s (info ip) = Some p" by auto
    moreover from inv_running [OF inv that(2)] that(4) have "links s (info iq) = Some q" by auto
    ultimately show ?thesis using that(5) by simp
  qed
  have 2: "p \<in> running s \<and> (\<exists>ip. heap s p = Some ip \<and> info ip = k)" if "links s k = Some p" for k p
    by (rule inv_links [OF inv that])
  have 3: "\<exists>ip. heap s p = Some ip \<and> links s (info ip) = Some p" if "p \<in> running s" for p
    using inv_running [OF inv that] by blast
  have 4: "\<exists>oldIntf ch. old \<in> running s \<and> heap s old = Some oldIntf
                 \<and> closed oldIntf = Some ch \<and> chans s ch = Some False
                 \<and> fst (handler_begin c io p s) = Return (Some ch) None
                 \<and> links (snd (handler_begin c io p s)) = links s
                 \<and> running (snd (handler_begin c io p s)) = running s
                 \<and> chans (snd (handler_begin c io p s)) = chans s"
    if np: "p \<notin> running s" and h: "heap s p = Some intf"
      and n: "negotiate c io intf = Inr (rmeta, mtr)" and pin: "pinned_ok intf rmeta"
      and a: "\<not> (incoming intf \<and> \<not> force intf \<and> \<not> isallowed c rmeta)"
      and l: "links s ((info intf)\<lparr>key := copy (key (info intf)) (meta_key rmeta)\<rparr>) = Some old"
    for p intf c io rmeta mtr old
  proof -
    from inv_links [OF inv l] have ro: "old \<in> running s" by blast
    then have op: "old \<noteq> p" using np by auto
    from inv_running [OF inv ro] obtain oldIntf ch where
      o: "heap s old = Some oldIntf" "closed oldIntf = Some ch" "chans s ch = Some False" by blast
    have reg: "register p intf rmeta mtr s =
        (Return (Some ch) None,
         s\<lparr>heap := (heap s)(p \<mapsto> intf\<lparr>info := (info intf)\<lparr>key := copy (key (info intf)) (meta_key rmeta)\<rparr>\<rparr>)\<rparr>)"
      using l o op by (simp add: register_def Let_def)
    show ?thesis
      using ro o unfolding handler_begin_register [OF h n pin a] reg
      by (simp add: conn_Close_def)
  qed
  from 1 2 3 4 show ?thesis by blast
qed

text \<open>Link 0 is live under the peer's key; link 1 shakes hands with the same peer over
  the same addresses and gets channel 1, the channel of link 0.\<close>

theorem one_live_link_per_key_witness:
  "reachable ex_state3 \<and> running ex_state3 = {0} \<and> links ex_state3 ex_key = Some 0
   \<and> heap ex_state3 0 = Some (ex_out\<lparr>info := ex_key, closed := Some 1\<rparr>)
   \<and> heap ex_state3 1 = Some ex_in
   \<and> (info ex_in)\<lparr>key := copy (key (info ex_in)) (meta_key (ex_remote 4))\<rparr> = ex_key
   \<and> fst (handler_begin (ex_core []) (ex_io 4) 1 ex_state3) = Return (Some 1) None
   \<and> links (snd (handler_begin (ex_core []) (ex_io 4) 1 ex_state3)) = links ex_state3
   \<and> running (snd (handler_begin (ex_core []) (ex_io 4) 1 ex_state3)) = {0}"
proof -
  have np: "1 \<notin> running ex_state3" and h: "heap ex_state3 1 = Some ex_in"
    and h0: "heap ex_state3 0 = Some (ex_out\<lparr>info := ex_key, closed := Some 1\<rparr>)"
    and ru: "running ex_state3 = {0}"
    by (simp_all add: ex_state3_eq)
  have n: "negotiate (ex_core []) (ex_io 4) ex_in = Inr (ex_remote 4, 4)"
    by (simp add: ex_negotiate ex_in_def ex_opts_def)
  have pk: "pinned_ok ex_in (ex_remote 4)" by (simp add: pinned_ok_def ex_in_def ex_opts_def)
  have a: "\<not> (incoming ex_in \<and> \<not> force ex_in \<and> \<not> isallowed (ex_core []) (ex_remote 4))"
    by (simp add: isallowed_eq) (simp add: ex_core_def)
  have k: "(info ex_in)\<lparr>key := copy (key (info ex_in)) (meta_key (ex_remote 4))\<rparr> = ex_key"
    by (simp add: ex_in_def ex_copy_key ex_key_def)
  have l: "links ex_state3 ((info ex_in)\<lparr>key := copy (key (info ex_in)) (meta_key (ex_remote 4))\<rparr>) = Some 0"
    unfolding k by (simp add: ex_state3_eq)
  from one_live_link_per_key [OF ex_reachable]
  have "\<exists>oldIntf ch. 0 \<in> running ex_state3 \<and> heap ex_state3 0 = Some oldIntf
                 \<and> closed oldIntf = Some ch \<and> chans ex_state3 ch = Some False
                 \<and> fst (handler_begin (ex_core []) (ex_io 4) 1 ex_state3) = Return (Some ch) None
                 \<and> links (snd (handler_begin (ex_core []) (ex_io 4) 1 ex_state3)) = links ex_state3
                 \<and> running (snd (handler_begin (ex_core []) (ex_io 4) 1 ex_state3)) = running ex_state3
                 \<and> chans (snd (handler_begin (ex_core []) (ex_io 4) 1 ex_state3)) = chans ex_state3"
    using np h n pk a l by blast
  then show ?thesis
    using ex_reachable h h0 ru k l by (auto simp: k)
qed

subsection \<open>C2: deregistration\<close>

text \<open>
  C2. In every reachable state, when \<^verbatim>\<open>HandleConn\<close> returns for a link, the entry under
  the link's key is this very link, and the deferred function removes it: an entry is
  removed only where the mapped link was the leaving link, and every entry of another
  link stays, so no newer entry is ever taken away. The link's closure channel is open
  until then and is closed by this step, once, without a panic; \<^verbatim>\<open>handler\<close> returns the
  tunnel engine's error, and the link is no longer live.
\<close>

theorem deregister_removes_own_entry:
  assumes "reachable s" and "p \<in> running s"
  shows "\<exists>intf ch. heap s p = Some intf \<and> links s (info intf) = Some p
           \<and> closed intf = Some ch \<and> chans s ch = Some False
           \<and> fst (handler_end herr p s) = Return None herr
           \<and> links (snd (handler_end herr p s)) = (links s)(info intf := None)
           \<and> (\<forall>k. links s k \<noteq> None \<and> links (snd (handler_end herr p s)) k = None
                 \<longrightarrow> links s k = Some p)
           \<and> (\<forall>k q. links s k = Some q \<and> q \<noteq> p
                 \<longrightarrow> links (snd (handler_end herr p s)) k = Some q)
           \<and> chans (snd (handler_end herr p s)) = (chans s)(ch \<mapsto> True)
           \<and> running (snd (handler_end herr p s)) = running s - {p}"
proof -
  from handler_end_running [OF reachable_inv [OF assms(1)] assms(2), of herr]
  obtain intf ch where d: "heap s p = Some intf" "links s (info intf) = Some p"
    "closed intf = Some ch" "chans s ch = Some False"
    and e: "handler_end herr p s =
       (Return None herr,
        conn_Close (conn intf)
          (s\<lparr>links := (links s)(info intf := None), running := running s - {p},
             chans := (chans s)(ch \<mapsto> True)\<rparr>))"
    by blast
  have l: "links (snd (handler_end herr p s)) = (links s)(info intf := None)"
    by (simp add: e conn_Close_def)
  have 1: "links s k = Some p"
    if "links s k \<noteq> None" "links (snd (handler_end herr p s)) k = None" for k
  proof (cases "k = info intf")
    case True
    then show ?thesis using d(2) by simp
  next
    case False
    then show ?thesis using that by (simp add: l)
  qed
  have 2: "links (snd (handler_end herr p s)) k = Some q"
    if "links s k = Some q" "q \<noteq> p" for k q
  proof -
    have "k \<noteq> info intf" using that d(2) by auto
    then show ?thesis using that(1) by (simp add: l)
  qed
  have 3: "fst (handler_end herr p s) = Return None herr"
    "chans (snd (handler_end herr p s)) = (chans s)(ch \<mapsto> True)"
    "running (snd (handler_end herr p s)) = running s - {p}"
    by (simp_all add: e conn_Close_def)
  from d l 1 2 3 show ?thesis by blast
qed

text \<open>Link 0 leaves the example run: the entry under its key was link 0, the entry
  goes, channel 1 is closed.\<close>

theorem deregister_removes_own_entry_witness:
  "reachable ex_state3 \<and> 0 \<in> running ex_state3
   \<and> links ex_state3 ex_key = Some 0
   \<and> fst (handler_end None 0 ex_state3) = Return None None
   \<and> links (snd (handler_end None 0 ex_state3)) = Map.empty
   \<and> chans ex_state3 1 = Some False
   \<and> chans (snd (handler_end None 0 ex_state3)) 1 = Some True"
proof -
  have r: "0 \<in> running ex_state3" by (simp add: ex_state3_eq)
  from deregister_removes_own_entry [OF ex_reachable r, of None]
  obtain intf ch where
    d: "heap ex_state3 0 = Some intf" "closed intf = Some ch"
       "links ex_state3 (info intf) = Some 0"
       "fst (handler_end None 0 ex_state3) = Return None None"
       "links (snd (handler_end None 0 ex_state3)) = (links ex_state3)(info intf := None)"
       "chans (snd (handler_end None 0 ex_state3)) = (chans ex_state3)(ch \<mapsto> True)"
    by blast
  from d(1) have i: "intf = ex_out\<lparr>info := ex_key, closed := Some 1\<rparr>"
    by (simp add: ex_state3_eq)
  have c: "ch = 1" and k: "info intf = ex_key" using d(2) by (simp_all add: i)
  have "links (snd (handler_end None 0 ex_state3)) = Map.empty"
    unfolding d(5) k by (simp add: ex_state3_eq)
  moreover have "chans (snd (handler_end None 0 ex_state3)) 1 = Some True"
    unfolding d(6) c by simp
  ultimately show ?thesis
    using ex_reachable r d(4) by (simp add: ex_state3_eq)
qed

subsection \<open>C3: the effective metric\<close>

text \<open>
  C3. For every pair of 8-bit metrics (the link's configured metric, the metric the
  remote advertises in its metadata), whenever \<^verbatim>\<open>handler\<close> reaches \<^verbatim>\<open>HandleConn\<close>, the
  metric it hands over is the maximum of the two.
\<close>

theorem effective_metric_is_max:
  assumes "heap s p = Some intf"
    and "handler_begin c io p s = (InHandleConn k cn mtr, s')"
  shows "\<exists>rmeta. decode c (read_buf io) = Some rmeta
           \<and> mtr = ucast (max (metric (options intf)) (meta_metric rmeta))
           \<and> unat mtr = max (unat (metric (options intf))) (unat (meta_metric rmeta))"
proof -
  from handler_begin_InHandleConn [OF assms] obtain rmeta where
    n: "negotiate c io intf = Inr (rmeta, mtr)" by blast
  have m: "mtr = ucast (max (metric (options intf)) (meta_metric rmeta))"
    by (rule negotiate_Inr(5) [OF n])
  have "unat mtr = max (unat (metric (options intf))) (unat (meta_metric rmeta))"
    unfolding m by (simp only: unat_ucast_8_64 unat_max_8)
  then show ?thesis using negotiate_Inr(3) [OF n] m by blast
qed

text \<open>The link configured with metric 3 meets the peer that advertises 9: the tunnel
  engine gets 9.\<close>

theorem effective_metric_is_max_witness:
  "heap ex_state2 0 = Some ex_out
   \<and> fst (handler_begin (ex_core []) (ex_io 9) 0 ex_state2) = InHandleConn (replicate 32 1) 5 9
   \<and> metric (options ex_out) = 3
   \<and> decode (ex_core []) (read_buf (ex_io 9)) = Some (ex_remote 9)
   \<and> meta_metric (ex_remote 9) = 9
   \<and> (9 :: 64 word) = ucast (max (3 :: 8 word) 9)"
proof -
  have h: "heap ex_state2 0 = Some ex_out" by (simp add: ex_state2_eq)
  from effective_metric_is_max [OF h ex_handshake]
  have "(9 :: 64 word) = ucast (max (metric (options ex_out)) (meta_metric (ex_remote 9)))"
    by (simp add: ex_decode)
  then show ?thesis
    using h by (simp add: ex_handshake ex_decode) (simp add: ex_out_def ex_opts_def ex_remote_def)
qed

subsection \<open>C4: the allow-list\<close>

text \<open>
  C4. For every incoming, non-forced connection and every remote metadata whose key, in
  hexadecimal, is not in the non-empty allow-list: when the handshake reaches the
  authorization step (the metadata went both ways, the version is compatible, the
  pinned keys, if any, hold the remote key), \<^verbatim>\<open>handler\<close> closes the connection and returns
  a nil channel and a nil error. On every path \<^verbatim>\<open>handler\<close> returns with a nil channel,
  the connection has been closed, and the map, the live links and the link objects are
  as before.
\<close>

theorem allowlist_rejection_is_silent:
  assumes "heap s p = Some intf"
    and "incoming intf" and "\<not> force intf"
    and "AllowedPublicKeys c \<noteq> []"
    and "decode c (read_buf io) = Some rmeta"
    and "EncodeToString (meta_key rmeta) \<notin> set (AllowedPublicKeys c)"
  shows "(send_meta io (local_metaBytes c intf) = None
            \<and> recv_meta io (local_metaBytes c intf) = None
            \<and> check c rmeta \<and> pinned_ok intf rmeta
          \<longrightarrow> handler_begin c io p s
                = (Return None None, conn_Close (conn intf) (conn_Close (conn intf) s)))
         \<and> (\<exists>err. fst (handler_begin c io p s) = Return None err)
         \<and> links (snd (handler_begin c io p s)) = links s
         \<and> running (snd (handler_begin c io p s)) = running s
         \<and> heap (snd (handler_begin c io p s)) = heap s
         \<and> conns s (conn intf) < conns (snd (handler_begin c io p s)) (conn intf)"
proof -
  have na: "\<not> isallowed c rmeta" using assms(4,6) by (simp add: isallowed_eq)
  have rej: "handler_begin c io p s
               = (Return None None, conn_Close (conn intf) (conn_Close (conn intf) s))"
    if "negotiate c io intf = Inr (rmeta, mtr)" "pinned_ok intf rmeta" for mtr
    by (rule handler_begin_reject [OF assms(1) that assms(2,3) na])
  have 1: "handler_begin c io p s
             = (Return None None, conn_Close (conn intf) (conn_Close (conn intf) s))"
    if "send_meta io (local_metaBytes c intf) = None"
      "recv_meta io (local_metaBytes c intf) = None" "check c rmeta" "pinned_ok intf rmeta"
  proof -
    from negotiate_reaches_pinned [OF that(1,2) assms(5) that(3)] obtain mtr where
      "negotiate c io intf = Inr (rmeta, mtr)" by blast
    from rej [OF this that(4)] show ?thesis .
  qed
  from negotiate_cases [of c io intf]
  have "\<exists>err s1. handler_begin c io p s = (Return None err, s1)
          \<and> (s1 = conn_Close (conn intf) s \<or> s1 = conn_Close (conn intf) (conn_Close (conn intf) s))"
  proof (elim disjE exE conjE)
    fix err assume "negotiate c io intf = Inl err"
    from handler_begin_fail [OF assms(1) this] show ?thesis by blast
  next
    fix rm mtr assume n: "negotiate c io intf = Inr (rm, mtr)" and "decode c (read_buf io) = Some rm"
    then have rm: "rm = rmeta" using assms(5) by simp
    show ?thesis
    proof (cases "pinned_ok intf rmeta")
      case True
      from rej [OF n [unfolded rm] True] show ?thesis by blast
    next
      case False
      from handler_begin_pinned [OF assms(1) n [unfolded rm] False] show ?thesis by blast
    qed
  qed
  then obtain err s1 where
    r: "handler_begin c io p s = (Return None err, s1)"
       "s1 = conn_Close (conn intf) s \<or> s1 = conn_Close (conn intf) (conn_Close (conn intf) s)"
    by blast
  have 2: "links s1 = links s" "running s1 = running s" "heap s1 = heap s"
    "conns s (conn intf) < conns s1 (conn intf)"
    using r(2) by (auto simp: conn_Close_def)
  show ?thesis using 1 2 by (simp add: r(1))
qed

text \<open>The incoming link 1 of the example, with the allow-list \<^verbatim>\<open>ff\<close>.\<close>

theorem allowlist_rejection_is_silent_witness:
  "heap ex_state2 1 = Some ex_in \<and> incoming ex_in \<and> \<not> force ex_in
   \<and> AllowedPublicKeys (ex_core [''ff'']) \<noteq> []
   \<and> decode (ex_core [''ff'']) (read_buf (ex_io 4)) = Some (ex_remote 4)
   \<and> EncodeToString (meta_key (ex_remote 4)) \<notin> set (AllowedPublicKeys (ex_core [''ff'']))
   \<and> fst (handler_begin (ex_core [''ff'']) (ex_io 4) 1 ex_state2) = Return None None
   \<and> links (snd (handler_begin (ex_core [''ff'']) (ex_io 4) 1 ex_state2)) = Map.empty
   \<and> conns ex_state2 6 = 0
   \<and> conns (snd (handler_begin (ex_core [''ff'']) (ex_io 4) 1 ex_state2)) 6 = 2"
proof -
  have h: "heap ex_state2 1 = Some ex_in" by (simp add: ex_state2_eq)
  have i: "incoming ex_in" and f: "\<not> force ex_in" and cn: "conn ex_in = 6"
    by (simp_all add: ex_in_def)
  have a: "AllowedPublicKeys (ex_core [''ff'']) \<noteq> []" by (simp add: ex_core_def)
  have pk: "pinned_ok ex_in (ex_remote 4)" by (simp add: pinned_ok_def ex_in_def ex_opts_def)
  have e: "EncodeToString (meta_key (ex_remote 4)) \<notin> set (AllowedPublicKeys (ex_core [''ff'']))"
    by (simp add: ex_hex ex_core_def)
  from allowlist_rejection_is_silent [OF h i f a ex_decode e]
  have "handler_begin (ex_core [''ff'']) (ex_io 4) 1 ex_state2
          = (Return None None, conn_Close (conn ex_in) (conn_Close (conn ex_in) ex_state2))"
    by (simp add: ex_send ex_recv ex_check pk)
  then show ?thesis
    using h i f a e by (simp add: ex_decode cn conn_Close_def) (simp add: ex_state2_eq)
qed

subsection \<open>C5: pinned keys\<close>

text \<open>
  C5. For every link, incoming or outgoing, whose options carry a pinned set, and
  every remote metadata whose key (copied into a key array) is not in the set:
  \<^verbatim>\<open>handler\<close> returns a nil channel and an error, and the map and the live links are as
  before. When the exchange itself went through and the version is compatible, the
  error is the pinned-key mismatch.
\<close>

theorem pinned_mismatch_is_error:
  assumes "heap s p = Some intf"
    and "pinnedEd25519Keys (options intf) = Some pinned"
    and "decode c (read_buf io) = Some rmeta"
    and "copy zeroKey (meta_key rmeta) \<notin> pinned"
  shows "(\<exists>err. fst (handler_begin c io p s) = Return None (Some err))
         \<and> links (snd (handler_begin c io p s)) = links s
         \<and> running (snd (handler_begin c io p s)) = running s
         \<and> (send_meta io (local_metaBytes c intf) = None
              \<and> recv_meta io (local_metaBytes c intf) = None \<and> check c rmeta
            \<longrightarrow> fst (handler_begin c io p s) = Return None (Some pinned_mismatch))"
proof -
  have np: "\<not> pinned_ok intf rmeta" using assms(2,4) by (simp add: pinned_ok_def)
  from negotiate_cases [of c io intf]
  have 1: "\<exists>err. handler_begin c io p s = (Return None (Some err), conn_Close (conn intf) s)"
  proof (elim disjE exE conjE)
    fix err assume "negotiate c io intf = Inl err"
    from handler_begin_fail [OF assms(1) this] show ?thesis by blast
  next
    fix rm mtr assume n: "negotiate c io intf = Inr (rm, mtr)" and "decode c (read_buf io) = Some rm"
    then have "rm = rmeta" using assms(3) by simp
    with handler_begin_pinned [OF assms(1) n] np show ?thesis by blast
  qed
  have 2: "fst (handler_begin c io p s) = Return None (Some pinned_mismatch)"
    if "send_meta io (local_metaBytes c intf) = None"
      "recv_meta io (local_metaBytes c intf) = None" "check c rmeta"
  proof -
    from negotiate_reaches_pinned [OF that(1,2) assms(3) that(3)] obtain mtr where
      "negotiate c io intf = Inr (rmeta, mtr)" by blast
    from handler_begin_pinned [OF assms(1) this np] show ?thesis by simp
  qed
  from 1 obtain err where
    e: "handler_begin c io p s = (Return None (Some err), conn_Close (conn intf) s)" by blast
  show ?thesis using 2 by (simp add: e conn_Close_def)
qed

text \<open>A link that pins the key \<open>02 02 ...\<close> meets the peer with the key \<open>01 01 ...\<close>.\<close>

theorem pinned_mismatch_is_error_witness:
  "heap (ex_pin_state (Some {replicate 32 2})) 0 = Some (ex_pin_link (Some {replicate 32 2}))
   \<and> pinnedEd25519Keys (options (ex_pin_link (Some {replicate 32 2}))) = Some {replicate 32 2}
   \<and> decode (ex_core []) (read_buf (ex_io 4)) = Some (ex_remote 4)
   \<and> copy zeroKey (meta_key (ex_remote 4)) \<notin> {replicate 32 2}
   \<and> fst (handler_begin (ex_core []) (ex_io 4) 0 (ex_pin_state (Some {replicate 32 2})))
       = Return None (Some pinned_mismatch)
   \<and> links (snd (handler_begin (ex_core []) (ex_io 4) 0 (ex_pin_state (Some {replicate 32 2}))))
       = Map.empty"
proof -
  have h: "heap (ex_pin_state (Some {replicate 32 2})) 0 = Some (ex_pin_link (Some {replicate 32 2}))"
    by (simp add: ex_pin_state_eq)
  have pn: "pinnedEd25519Keys (options (ex_pin_link (Some {replicate 32 2}))) = Some {replicate 32 2}"
    by (simp add: ex_pin_link_def)
  have k: "copy zeroKey (meta_key (ex_remote 4)) \<notin> {replicate 32 2}"
    by (simp add: ex_copy_key)
  from pinned_mismatch_is_error [OF h pn ex_decode k]
  show ?thesis using h pn k by (simp add: ex_send ex_recv ex_check ex_decode) (simp add: ex_pin_state_eq)
qed

subsection \<open>C6: closing the connection, removing the entry\<close>

text \<open>
  C6, as amended. On every path through \<^verbatim>\<open>handler\<close> the raw connection is closed:
  \<^verbatim>\<open>Close\<close> is called once, by the deferred call, and on the allow-list path twice,
  by \<^verbatim>\<open>intf.close()\<close> and by the deferred call. The map after \<^verbatim>\<open>handler\<close> is the map
  before it: the entry created for this attempt, if any, was absent before, is present
  while \<^verbatim>\<open>HandleConn\<close> runs and is removed when it returns.
\<close>

theorem handler_closes_conn_and_cleans_registry:
  assumes h: "heap s p = Some intf"
  shows "conns (snd (handler c io herr p s))
           = (conns s)(conn intf :=
                conns s (conn intf) + (if allowlist_rejects c io intf then 2 else 1))
         \<and> links (snd (handler c io herr p s)) = links s
         \<and> (\<forall>k cn m s1. handler_begin c io p s = (InHandleConn k cn m, s1) \<longrightarrow>
               links s ((info intf)\<lparr>key := k\<rparr>) = None
               \<and> links s1 = (links s)((info intf)\<lparr>key := k\<rparr> \<mapsto> p)
               \<and> conns s1 = conns s
               \<and> handler c io herr p s = handler_end herr p s1
               \<and> fst (handler_end herr p s1) = Return None herr)"
proof -
  consider
    (fail) err where "\<not> allowlist_rejects c io intf"
      "handler_begin c io p s = (Return None (Some err), conn_Close (conn intf) s)"
  | (reject) "allowlist_rejects c io intf"
      "handler_begin c io p s = (Return None None, conn_Close (conn intf) (conn_Close (conn intf) s))"
  | (dup) r s1 where "\<not> allowlist_rejects c io intf"
      "handler_begin c io p s = (r, conn_Close (conn intf) s1)"
      "\<forall>k cn m. r \<noteq> InHandleConn k cn m" "links s1 = links s" "conns s1 = conns s"
  | (new) k m where "\<not> allowlist_rejects c io intf" "links s ((info intf)\<lparr>key := k\<rparr>) = None"
      "handler_begin c io p s
                  = (InHandleConn k (conn intf) m,
                     s\<lparr>heap := (heap s)(p \<mapsto> intf\<lparr>info := (info intf)\<lparr>key := k\<rparr>,
                                                   closed := Some (next_chan s)\<rparr>),
                       chans := (chans s)(next_chan s \<mapsto> False),
                       next_chan := Suc (next_chan s),
                       links := (links s)((info intf)\<lparr>key := k\<rparr> \<mapsto> p),
                       running := insert p (running s)\<rparr>)"
    using handler_paths [OF h, of c io] by blast
  then show ?thesis
  proof cases
    case fail
    then show ?thesis by (auto simp: handler_def conn_Close_def)
  next
    case reject
    then show ?thesis by (auto simp: handler_def conn_Close_def)
  next
    case dup
    have "handler c io herr p s = (r, conn_Close (conn intf) s1)"
      using dup(2,3) by (cases r) (simp_all add: handler_def)
    then show ?thesis using dup by (auto simp: conn_Close_def)
  next
    case new
    let ?s1 = "s\<lparr>heap := (heap s)(p \<mapsto> intf\<lparr>info := (info intf)\<lparr>key := k\<rparr>,
                                                   closed := Some (next_chan s)\<rparr>),
                       chans := (chans s)(next_chan s \<mapsto> False),
                       next_chan := Suc (next_chan s),
                       links := (links s)((info intf)\<lparr>key := k\<rparr> \<mapsto> p),
                       running := insert p (running s)\<rparr>"
    have e: "handler_end herr p ?s1 =
       (Return None herr,
        conn_Close (conn intf)
          (?s1\<lparr>links := (links ?s1)((info intf)\<lparr>key := k\<rparr> := None),
               running := running ?s1 - {p},
               chans := (chans ?s1)(next_chan s \<mapsto> True)\<rparr>))"
      by (simp add: handler_end_def close_chan_def Let_def)
    have hd: "handler c io herr p s = handler_end herr p ?s1"
      using new(3) by (simp add: handler_def)
    have l: "((links s)((info intf)\<lparr>key := k\<rparr> \<mapsto> p))((info intf)\<lparr>key := k\<rparr> := None) = links s"
      using new(2) by (auto simp: fun_eq_iff)
    have 1: "conns (snd (handler c io herr p s))
           = (conns s)(conn intf := conns s (conn intf) + (if allowlist_rejects c io intf then 2 else 1))"
      unfolding hd e using new(1) by (simp add: conn_Close_def)
    have 2: "links (snd (handler c io herr p s)) = links s"
      unfolding hd e using l by (simp add: conn_Close_def)
    have 3: "links s ((info intf)\<lparr>key := k'\<rparr>) = None
               \<and> links s1 = (links s)((info intf)\<lparr>key := k'\<rparr> \<mapsto> p)
               \<and> conns s1 = conns s
               \<and> handler c io herr p s = handler_end herr p s1
               \<and> fst (handler_end herr p s1) = Return None herr"
      if "handler_begin c io p s = (InHandleConn k' cn m', s1)" for k' cn m' s1
    proof -
      from that new(3) have "(InHandleConn k' cn m', s1) = (InHandleConn k (conn intf) m, ?s1)"
        by (rule trans [OF sym])
      then have k: "k' = k" and s1: "s1 = ?s1" by blast+
      show ?thesis unfolding k s1 using new(2) hd e by simp
    qed
    from 1 2 3 show ?thesis by blast
  qed
qed

text \<open>The outgoing link 0 of the example completes its handshake, the tunnel engine
  returns: one \<^verbatim>\<open>Close\<close>, the entry made and removed.\<close>

theorem handler_closes_conn_and_cleans_registry_witness:
  "heap ex_state2 0 = Some ex_out
   \<and> fst (handler_begin (ex_core []) (ex_io 9) 0 ex_state2) = InHandleConn (replicate 32 1) 5 9
   \<and> links ex_state2 ex_key = None
   \<and> links (snd (handler_begin (ex_core []) (ex_io 9) 0 ex_state2)) ex_key = Some 0
   \<and> fst (handler (ex_core []) (ex_io 9) None 0 ex_state2) = Return None None
   \<and> links (snd (handler (ex_core []) (ex_io 9) None 0 ex_state2)) = Map.empty
   \<and> conns ex_state2 5 = 0
   \<and> conns (snd (handler (ex_core []) (ex_io 9) None 0 ex_state2)) 5 = 1"
proof -
  have h: "heap ex_state2 0 = Some ex_out" by (simp add: ex_state2_eq)
  have c: "conn ex_out = 5" by (simp add: ex_out_def)
  have k: "(info ex_out)\<lparr>key := replicate 32 1\<rparr> = ex_key" by (simp add: ex_out_def ex_key_def)
  from handler_closes_conn_and_cleans_registry [OF h, of "ex_core []" "ex_io 9" None]
  have "conns (snd (handler (ex_core []) (ex_io 9) None 0 ex_state2)) 5 = conns ex_state2 5 + 1"
    and "links (snd (handler (ex_core []) (ex_io 9) None 0 ex_state2)) = links ex_state2"
    and "\<And>k cn m s1. handler_begin (ex_core []) (ex_io 9) 0 ex_state2 = (InHandleConn k cn m, s1) \<Longrightarrow>
           handler (ex_core []) (ex_io 9) None 0 ex_state2 = handler_end None 0 s1
           \<and> fst (handler_end None 0 s1) = Return None None"
    by (simp_all add: ex_not_rejected c)
  from this(1,2) this(3) [OF ex_handshake]
  show ?thesis using h by (simp add: ex_handshake) (simp add: ex_state2_eq)
qed

text \<open>The claim as stated, with exactly one \<^verbatim>\<open>Close\<close> on every path, fails on the
  allow-list path: the incoming link 1, with the allow-list \<^verbatim>\<open>ff\<close>, has its connection 6
  closed twice.\<close>

theorem close_exactly_once_counterexample:
  "heap ex_state2 1 = Some ex_in \<and> conn ex_in = 6 \<and> conns ex_state2 6 = 0
   \<and> fst (handler (ex_core [''ff'']) (ex_io 4) None 1 ex_state2) = Return None None
   \<and> conns (snd (handler (ex_core [''ff'']) (ex_io 4) None 1 ex_state2)) 6 = 2"
proof -
  have h: "heap ex_state2 1 = Some ex_in" by (simp add: ex_state2_eq)
  have i: "incoming ex_in" and f: "\<not> force ex_in" and cn: "conn ex_in = 6"
    by (simp_all add: ex_in_def)
  have n: "negotiate (ex_core [''ff'']) (ex_io 4) ex_in = Inr (ex_remote 4, 4)"
    by (simp add: ex_negotiate ex_in_def ex_opts_def)
  have pk: "pinned_ok ex_in (ex_remote 4)" by (simp add: pinned_ok_def ex_in_def ex_opts_def)
  have e: "\<not> isallowed (ex_core [''ff'']) (ex_remote 4)"
    by (simp add: isallowed_eq ex_hex) (simp add: ex_core_def)
  from handler_begin_reject [OF h n pk i f e]
  show ?thesis using h by (simp add: handler_def cn conn_Close_def) (simp add: ex_state2_eq)
qed

subsection \<open>C7: \<^verbatim>\<open>stop\<close>\<close>

text \<open>
  C7, as amended. Called on a registry whose stop channel is open, \<^verbatim>\<open>stop\<close> closes the
  channel, stops the adapter and returns the adapter's error; any further call panics
  on the closed channel.
\<close>

theorem stop_closes_once_then_panics:
  assumes "stopped s = Some ch" and "chans s ch = Some False"
  shows "stop tcp_stop s
           = (Returns (fst (tcp_stop (tcp s))),
              s\<lparr>tcp := snd (tcp_stop (tcp s)), chans := (chans s)(ch \<mapsto> True)\<rparr>)
         \<and> fst (stop tcp_stop' (snd (stop tcp_stop s))) = Panic"
proof -
  have 1: "stop tcp_stop s
           = (Returns (fst (tcp_stop (tcp s))),
              s\<lparr>tcp := snd (tcp_stop (tcp s)), chans := (chans s)(ch \<mapsto> True)\<rparr>)"
    using assms by (simp add: stop_def close_chan_def split: prod.splits)
  have "fst (stop tcp_stop' (s\<lparr>tcp := snd (tcp_stop (tcp s)), chans := (chans s)(ch \<mapsto> True)\<rparr>)) = Panic"
    using assms by (simp add: stop_def close_chan_def)
  with 1 show ?thesis by simp
qed

text \<open>After \<^verbatim>\<open>init\<close>, with an adapter whose \<^verbatim>\<open>stop\<close> fails.\<close>

theorem stop_closes_once_then_panics_witness:
  "stopped ex_state0 = Some 0 \<and> chans ex_state0 0 = Some False
   \<and> fst (stop ex_tcp_stop_fails ex_state0) = Returns (Some (Foreign ''listener''))
   \<and> chans (snd (stop ex_tcp_stop_fails ex_state0)) 0 = Some True
   \<and> fst (stop ex_tcp_stop (snd (stop ex_tcp_stop_fails ex_state0))) = Panic"
proof -
  have a: "stopped ex_state0 = Some 0" and b: "chans ex_state0 0 = Some False"
    by (simp_all add: ex_state0_eq)
  note t = stop_closes_once_then_panics [OF a b, of ex_tcp_stop_fails ex_tcp_stop]
  have 1: "fst (stop ex_tcp_stop_fails ex_state0) = Returns (Some (Foreign ''listener''))"
    and 2: "chans (snd (stop ex_tcp_stop_fails ex_state0)) 0 = Some True"
    by (simp_all add: conjunct1 [OF t] ex_tcp_stop_fails_def)
  show ?thesis using a b 1 2 conjunct2 [OF t] by blast
qed

text \<open>The claim as stated, that \<^verbatim>\<open>stop\<close> may be called twice, fails right after
  \<^verbatim>\<open>init\<close>.\<close>

theorem stop_twice_counterexample:
  "fst (stop ex_tcp_stop ex_state0) = Returns None
   \<and> fst (stop ex_tcp_stop (snd (stop ex_tcp_stop ex_state0))) = Panic"
  by (simp add: ex_state0_eq stop_def close_chan_def ex_tcp_stop_def)

subsection \<open>C8: the deadlines of the exchange\<close>

text \<open>
  C8. The send and the receive each run under their own deadline of 30 seconds: a send
  that takes 30 seconds or more, or never returns, ends \<^verbatim>\<open>handler\<close> with the send
  timeout error; a send in time that wrote another number of bytes, or failed, ends it
  with the incomplete-send error, or with the error of the write; likewise for the
  receive, with its own two errors, once the send went through. Whether a step goes
  through depends on its own time, count and error only. In each of these cases the map
  and the live links are as before.
\<close>

theorem handshake_deadlines:
  assumes "heap s p = Some intf"
  shows
    "((\<forall>t. write_time io = Some t \<longrightarrow> 30 * Second \<le> t) \<longrightarrow>
        handler_begin c io p s
          = (Return None (Some (ErrorNew ''timeout on metadata send'')), conn_Close (conn intf) s))
   \<and> ((\<exists>t. write_time io = Some t \<and> t < 30 * Second) \<and> write_err io = None
        \<and> write_n io \<noteq> int (length (local_metaBytes c intf)) \<longrightarrow>
        handler_begin c io p s
          = (Return None (Some (ErrorNew ''incomplete metadata send'')), conn_Close (conn intf) s))
   \<and> (\<forall>err. (\<exists>t. write_time io = Some t \<and> t < 30 * Second) \<and> write_err io = Some err \<longrightarrow>
        handler_begin c io p s = (Return None (Some err), conn_Close (conn intf) s))
   \<and> (send_meta io (local_metaBytes c intf) = None
        \<and> (\<forall>t. read_time io = Some t \<longrightarrow> 30 * Second \<le> t) \<longrightarrow>
        handler_begin c io p s
          = (Return None (Some (ErrorNew ''timeout on metadata recv'')), conn_Close (conn intf) s))
   \<and> (send_meta io (local_metaBytes c intf) = None
        \<and> (\<exists>t. read_time io = Some t \<and> t < 30 * Second) \<and> read_err io = None
        \<and> read_n io \<noteq> int (length (local_metaBytes c intf)) \<longrightarrow>
        handler_begin c io p s
          = (Return None (Some (ErrorNew ''incomplete metadata recv'')), conn_Close (conn intf) s))
   \<and> (\<forall>err. send_meta io (local_metaBytes c intf) = None
        \<and> (\<exists>t. read_time io = Some t \<and> t < 30 * Second) \<and> read_err io = Some err \<longrightarrow>
        handler_begin c io p s = (Return None (Some err), conn_Close (conn intf) s))
   \<and> (send_meta io (local_metaBytes c intf) = None) =
        ((\<exists>t. write_time io = Some t \<and> t < 30 * Second) \<and> write_err io = None
           \<and> write_n io = int (length (local_metaBytes c intf)))
   \<and> (recv_meta io (local_metaBytes c intf) = None) =
        ((\<exists>t. read_time io = Some t \<and> t < 30 * Second) \<and> read_err io = None
           \<and> read_n io = int (length (local_metaBytes c intf)))
   \<and> links (conn_Close (conn intf) s) = links s
   \<and> running (conn_Close (conn intf) s) = running s
   \<and> 30 * Second = 30000000000"
proof -
  let ?b = "local_metaBytes c intf"
  note fail = handler_begin_fail [OF assms]
  have 1: "handler_begin c io p s
          = (Return None (Some (ErrorNew ''timeout on metadata send'')), conn_Close (conn intf) s)"
    if "\<forall>t. write_time io = Some t \<longrightarrow> 30 * Second \<le> t"
  proof -
    have "send_meta io ?b = Some (ErrorNew ''timeout on metadata send'')"
      using that by (auto simp: send_meta_def FuncTimeout_def split: option.splits)
    then show ?thesis by (intro fail negotiate_send_fail)
  qed
  have 2: "handler_begin c io p s
          = (Return None (Some (ErrorNew ''incomplete metadata send'')), conn_Close (conn intf) s)"
    if "\<exists>t. write_time io = Some t \<and> t < 30 * Second" "write_err io = None"
      "write_n io \<noteq> int (length ?b)"
  proof -
    have "send_meta io ?b = Some (ErrorNew ''incomplete metadata send'')"
      using that by (auto simp: send_meta_def FuncTimeout_def)
    then show ?thesis by (intro fail negotiate_send_fail)
  qed
  have 3: "handler_begin c io p s = (Return None (Some err), conn_Close (conn intf) s)"
    if "\<exists>t. write_time io = Some t \<and> t < 30 * Second" "write_err io = Some err" for err
  proof -
    have "send_meta io ?b = Some err"
      using that by (auto simp: send_meta_def FuncTimeout_def)
    then show ?thesis by (intro fail negotiate_send_fail)
  qed
  have 4: "handler_begin c io p s
          = (Return None (Some (ErrorNew ''timeout on metadata recv'')), conn_Close (conn intf) s)"
    if "send_meta io ?b = None" "\<forall>t. read_time io = Some t \<longrightarrow> 30 * Second \<le> t"
  proof -
    have "recv_meta io ?b = Some (ErrorNew ''timeout on metadata recv'')"
      using that(2) by (auto simp: recv_meta_def FuncTimeout_def split: option.splits)
    then show ?thesis using that(1) by (intro fail negotiate_recv_fail)
  qed
  have 5: "handler_begin c io p s
          = (Return None (Some (ErrorNew ''incomplete metadata recv'')), conn_Close (conn intf) s)"
    if "send_meta io ?b = None" "\<exists>t. read_time io = Some t \<and> t < 30 * Second"
      "read_err io = None" "read_n io \<noteq> int (length ?b)"
  proof -
    have "recv_meta io ?b = Some (ErrorNew ''incomplete metadata recv'')"
      using that(2-4) by (auto simp: recv_meta_def FuncTimeout_def)
    then show ?thesis using that(1) by (intro fail negotiate_recv_fail)
  qed
  have 6: "handler_begin c io p s = (Return None (Some err), conn_Close (conn intf) s)"
    if "send_meta io ?b = None" "\<exists>t. read_time io = Some t \<and> t < 30 * Second"
      "read_err io = Some err" for err
  proof -
    have "recv_meta io ?b = Some err"
      using that(2,3) by (auto simp: recv_meta_def FuncTimeout_def)
    then show ?thesis using that(1) by (intro fail negotiate_recv_fail)
  qed
  have 7: "links (conn_Close (conn intf) s) = links s"
    "running (conn_Close (conn intf) s) = running s" "30 * Second = 30000000000"
    by (simp_all add: conn_Close_def Second_def)
  show ?thesis
    using 1 2 3 4 5 6 7 send_meta_None [of io ?b] recv_meta_None [of io ?b] by blast
qed

text \<open>Link 0 of the example with a write of 30 seconds, a short write, a read that never
  returns, a short read; and with a write and a read of 29 seconds each, which both go
  through.\<close>

theorem handshake_deadlines_witness:
  "heap ex_state2 0 = Some ex_out
   \<and> write_time ((ex_io 9)\<lparr>write_time := Some (30 * Second)\<rparr>) = Some (30 * Second)
   \<and> fst (handler_begin (ex_core []) ((ex_io 9)\<lparr>write_time := Some (30 * Second)\<rparr>) 0 ex_state2)
       = Return None (Some (ErrorNew ''timeout on metadata send''))
   \<and> fst (handler_begin (ex_core []) ((ex_io 9)\<lparr>write_n := 20\<rparr>) 0 ex_state2)
       = Return None (Some (ErrorNew ''incomplete metadata send''))
   \<and> fst (handler_begin (ex_core []) ((ex_io 9)\<lparr>read_time := None\<rparr>) 0 ex_state2)
       = Return None (Some (ErrorNew ''timeout on metadata recv''))
   \<and> fst (handler_begin (ex_core []) ((ex_io 9)\<lparr>read_n := 20\<rparr>) 0 ex_state2)
       = Return None (Some (ErrorNew ''incomplete metadata recv''))
   \<and> links (snd (handler_begin (ex_core []) ((ex_io 9)\<lparr>read_time := None\<rparr>) 0 ex_state2))
       = Map.empty
   \<and> write_time (ex_io 9) = Some (29 * Second) \<and> read_time (ex_io 9) = Some (29 * Second)
   \<and> send_meta (ex_io 9) (local_metaBytes (ex_core []) ex_out) = None
   \<and> recv_meta (ex_io 9) (local_metaBytes (ex_core []) ex_out) = None"
proof -
  have h: "heap ex_state2 0 = Some ex_out" by (simp add: ex_state2_eq)
  have len: "length (local_metaBytes (ex_core []) ex_out) = 35" by (rule ex_local_metaBytes)
  have lk: "links (conn_Close (conn ex_out) ex_state2) = Map.empty"
    by (simp add: conn_Close_def ex_state2_eq)
  note t = handshake_deadlines [OF h, of _ "ex_core []"]
  have 1: "fst (handler_begin (ex_core []) ((ex_io 9)\<lparr>write_time := Some (30 * Second)\<rparr>) 0 ex_state2)
       = Return None (Some (ErrorNew ''timeout on metadata send''))"
    using t [of "(ex_io 9)\<lparr>write_time := Some (30 * Second)\<rparr>"] by simp
  have 2: "fst (handler_begin (ex_core []) ((ex_io 9)\<lparr>write_n := 20\<rparr>) 0 ex_state2)
       = Return None (Some (ErrorNew ''incomplete metadata send''))"
    using t [of "(ex_io 9)\<lparr>write_n := 20\<rparr>"] by (simp add: len) (simp add: ex_io_def Second_def)
  have s3: "send_meta ((ex_io 9)\<lparr>read_time := None\<rparr>) (local_metaBytes (ex_core []) ex_out) = None"
    "send_meta ((ex_io 9)\<lparr>read_n := 20\<rparr>) (local_metaBytes (ex_core []) ex_out) = None"
    by (simp_all add: send_meta_None len) (simp_all add: ex_io_def Second_def)
  have 3: "handler_begin (ex_core []) ((ex_io 9)\<lparr>read_time := None\<rparr>) 0 ex_state2
       = (Return None (Some (ErrorNew ''timeout on metadata recv'')), conn_Close (conn ex_out) ex_state2)"
    using t [of "(ex_io 9)\<lparr>read_time := None\<rparr>"] s3(1) by simp
  have 4: "fst (handler_begin (ex_core []) ((ex_io 9)\<lparr>read_n := 20\<rparr>) 0 ex_state2)
       = Return None (Some (ErrorNew ''incomplete metadata recv''))"
    using t [of "(ex_io 9)\<lparr>read_n := 20\<rparr>"] s3(2) by (simp add: len) (simp add: ex_io_def Second_def)
  show ?thesis
    using h 1 2 3 4 lk ex_send [of 9 "[]" ex_out] ex_recv [of 9 "[]" ex_out]
    by (simp add: ex_io_def)
qed

subsection \<open>C9: the error of \<^verbatim>\<open>call\<close>\<close>

text \<open>
  C9. \<^verbatim>\<open>call\<close> returns an error exactly when the scheme is none of \<^verbatim>\<open>tcp\<close>, \<^verbatim>\<open>socks\<close>,
  \<^verbatim>\<open>tls\<close>; the error then names the scheme and the adapter is not called. For the
  three schemes it returns nil, whatever the adapter's \<^verbatim>\<open>call\<close> does with the request.
\<close>

theorem call_error_iff_unknown_scheme:
  "(fst (call tcp_call u sintf s) = None \<longleftrightarrow> Scheme u \<in> {''tcp'', ''socks'', ''tls''})
   \<and> (Scheme u \<notin> {''tcp'', ''socks'', ''tls''} \<longrightarrow>
        call tcp_call u sintf s = (Some (ErrorNew (''unknown call scheme: '' @ Scheme u)), s))"
  by (simp add: call_def Let_def)

text \<open>The scheme \<^verbatim>\<open>udp\<close> is refused by name, \<^verbatim>\<open>tcp\<close> is accepted.\<close>

theorem call_error_iff_unknown_scheme_witness:
  "Scheme (ex_url ''udp'' []) \<notin> {''tcp'', ''socks'', ''tls''}
   \<and> call ex_tcp_call (ex_url ''udp'' []) ''eth0'' ex_state0
       = (Some (ErrorNew ''unknown call scheme: udp''), ex_state0)
   \<and> fst (call ex_tcp_call (ex_url ''tcp'' []) ''eth0'' ex_state0) = None"
  using call_error_iff_unknown_scheme [of ex_tcp_call "ex_url ''udp'' []" "''eth0''" ex_state0]
    call_error_iff_unknown_scheme [of ex_tcp_call "ex_url ''tcp'' []" "''eth0''" ex_state0]
  by (simp add: ex_url_def)

subsection \<open>C10: pinned keys that do not decode\<close>

text \<open>
  C10. When the query has at least one \<^verbatim>\<open>ed25519\<close> value and none of them decodes, the
  pinned set of the options is allocated and empty; a handshake on a link with this
  pinned set returns an error and leaves the map as it was, and whenever the exchange
  went through and the version is compatible, whatever the remote key, the error is
  the pinned-key mismatch.
\<close>

theorem undecodable_pins_reject_every_peer:
  assumes "Query u ''ed25519'' = Some pubkeys" and "pubkeys \<noteq> []"
    and "\<forall>pk \<in> set pubkeys. DecodeString pk = None"
    and "heap s p = Some intf"
    and "pinnedEd25519Keys (options intf) = pinnedEd25519Keys (call_options u)"
  shows "pinnedEd25519Keys (call_options u) = Some {}
         \<and> (\<exists>err. fst (handler_begin c io p s) = Return None (Some err))
         \<and> links (snd (handler_begin c io p s)) = links s
         \<and> (\<forall>rmeta mtr. negotiate c io intf = Inr (rmeta, mtr) \<longrightarrow>
               fst (handler_begin c io p s) = Return None (Some pinned_mismatch))"
proof -
  have e: "pinnedEd25519Keys (call_options u) = Some {}"
    using assms(1,2) pin_keys_none [OF assms(3), of "{}"]
    by (simp add: call_options_def Let_def tcpOptions_zero_def split: option.splits list.splits)
  then have np: "\<not> pinned_ok intf rmeta" for rmeta
    using assms(5) by (simp add: pinned_ok_def)
  have 2: "handler_begin c io p s = (Return None (Some pinned_mismatch), conn_Close (conn intf) s)"
    if "negotiate c io intf = Inr (rmeta, mtr)" for rmeta mtr
    by (rule handler_begin_pinned [OF assms(4) that np])
  have 1: "\<exists>err. handler_begin c io p s = (Return None (Some err), conn_Close (conn intf) s)"
  proof (cases "negotiate c io intf")
    case (Inl err)
    from handler_begin_fail [OF assms(4) Inl] show ?thesis by blast
  next
    case (Inr x)
    then show ?thesis using 2 [of "fst x" "snd x"] by simp
  qed
  then obtain err where
    r: "handler_begin c io p s = (Return None (Some err), conn_Close (conn intf) s)" by blast
  show ?thesis using e 2 by (simp add: r conn_Close_def)
qed

text \<open>The query \<^verbatim>\<open>ed25519=zz\<close>.\<close>

theorem undecodable_pins_reject_every_peer_witness:
  "Query (ex_url ''tcp'' [''zz'']) ''ed25519'' = Some [''zz''] \<and> DecodeString ''zz'' = None
   \<and> pinnedEd25519Keys (call_options (ex_url ''tcp'' [''zz''])) = Some {}
   \<and> heap (ex_pin_state (Some {})) 0 = Some (ex_pin_link (Some {}))
   \<and> negotiate (ex_core []) (ex_io 4) (ex_pin_link (Some {})) = Inr (ex_remote 4, 4)
   \<and> fst (handler_begin (ex_core []) (ex_io 4) 0 (ex_pin_state (Some {})))
       = Return None (Some pinned_mismatch)
   \<and> links (snd (handler_begin (ex_core []) (ex_io 4) 0 (ex_pin_state (Some {})))) = Map.empty"
proof -
  have q: "Query (ex_url ''tcp'' [''zz'']) ''ed25519'' = Some [''zz'']" by (simp add: ex_url_def)
  have ne: "[''zz''] \<noteq> []" by simp
  have d: "\<forall>pk \<in> set [''zz'']. DecodeString pk = None"
    by (simp del: DecodeString.simps add: ex_DecodeString_zz)
  have h: "heap (ex_pin_state (Some {})) 0 = Some (ex_pin_link (Some {}))"
    by (simp add: ex_pin_state_eq)
  have o: "pinnedEd25519Keys (call_options (ex_url ''tcp'' [''zz''])) = Some {}"
    by (simp del: DecodeString.simps
        add: call_options_def ex_url_def tcpOptions_zero_def ex_DecodeString_zz)
  have po: "pinnedEd25519Keys (options (ex_pin_link (Some {})))
            = pinnedEd25519Keys (call_options (ex_url ''tcp'' [''zz'']))"
    by (simp add: o ex_pin_link_def)
  have n: "negotiate (ex_core []) (ex_io 4) (ex_pin_link (Some {})) = Inr (ex_remote 4, 4)"
    by (simp add: ex_negotiate ex_pin_link_def)
  from undecodable_pins_reject_every_peer [OF q ne d h po, of "ex_core []" "ex_io 4"]
  show ?thesis using q n h
    by (simp del: DecodeString.simps add: ex_DecodeString_zz) (simp add: ex_pin_state_eq)
qed

end
